theory Spec2Isabelle
  imports Complex_Main
begin

section \<open>Values, interpreters and the dispatch context\<close>

text \<open>
  The development follows \<^verbatim>\<open>docs/autodidax2_part1.ipynb\<close>. Python floats are
  modelled by \<^typ>\<open>real\<close>. A float sum or product is the real one rounded, so
  the two agree exactly where the operands and the result are integers of
  magnitude at most \<open>2 ^ 53\<close>, as in the notebook's examples; arithmetic results
  are stated below at such values only. A Python \<^verbatim>\<open>str\<close> (the IR's \<^verbatim>\<open>Var\<close>)
  is a \<^typ>\<open>string\<close>.
\<close>

text \<open>\<^verbatim>\<open>class Op(Enum)\<close>: the closed set of primitive operations.\<close>

datatype op = Add | Mul

text \<open>The Python exceptions the modelled code can raise.\<close>

datatype error = AssertionError | ValueError | TypeError | KeyError

text \<open>
  Interpreter objects. \<^verbatim>\<open>EvalInterpreter\<close> has the single instance created at
  module level. A \<^verbatim>\<open>StagingInterpreter\<close> is a reference to its mutable fields in
  the heap. A \<^verbatim>\<open>JVPInterpreter\<close> carries the address it was allocated at (its
  object identity) and its immutable field \<^verbatim>\<open>prev_interpreter\<close>. Addresses are
  handed out once, so equality of these values is Python's \<^verbatim>\<open>is\<close>.
\<close>

datatype interp =
    EvalInterpreter
  | StagingInterpreter nat
  | JVPInterpreter nat (prev_interpreter: interp)

text \<open>\<^verbatim>\<open>TaggedDualNumber\<close> and the values that flow through the interpreters.\<close>

datatype tdn = TaggedDualNumber (interpreter: interp) (primal: val) (tangent: val)
and val = VFloat real | VStr string | VDual tdn

text \<open>\<^verbatim>\<open>Equation\<close>, \<^verbatim>\<open>Jaxpr\<close>, and the fields of a \<^verbatim>\<open>StagingInterpreter\<close>.\<close>

record equation =
  var :: string
  op :: op
  args :: "val list"

record jaxpr =
  parameters :: "string list"
  jaxpr_equations :: "equation list"
  return_val :: val

record staging =
  equations :: "equation list"
  name_counter :: nat

text \<open>
  The program state: the global \<^verbatim>\<open>current_interpreter\<close>, the next free
  address, and the heap of staging interpreters.
\<close>

record state =
  current_interpreter :: interp
  next_id :: nat
  heap :: "nat \<Rightarrow> staging"

definition initial_state :: state where
  "initial_state =
     \<lparr>current_interpreter = EvalInterpreter, next_id = 0,
      heap = (\<lambda>_. \<lparr>equations = [], name_counter = 0\<rparr>)\<rparr>"

text \<open>
  A computation returns a value or raises, and in both cases leaves a state
  behind.
\<close>

type_synonym 'a comp = "state \<Rightarrow> (error + 'a) \<times> state"

definition ret :: "'a \<Rightarrow> 'a comp" where
  "ret x s = (Inr x, s)"

definition raise :: "error \<Rightarrow> 'a comp" where
  "raise e s = (Inl e, s)"

definition bnd :: "'a comp \<Rightarrow> ('a \<Rightarrow> 'b comp) \<Rightarrow> 'b comp" where
  "bnd m f s = (case m s of (Inl e, s') \<Rightarrow> (Inl e, s') | (Inr x, s') \<Rightarrow> f x s')"

text \<open>
  \<^verbatim>\<open>set_interpreter\<close>: the \<^verbatim>\<open>try\<close>/\<^verbatim>\<open>finally\<close> of the context manager runs
  on both exits of the body.
\<close>

definition set_interpreter :: "interp \<Rightarrow> 'a comp \<Rightarrow> 'a comp" where
  "set_interpreter new_interpreter body s =
     (let prev_interpreter = current_interpreter s;
          (r, s') = body (s\<lparr>current_interpreter := new_interpreter\<rparr>)
      in (r, s'\<lparr>current_interpreter := prev_interpreter\<rparr>))"

section \<open>The evaluating interpreter\<close>

fun is_float :: "val \<Rightarrow> bool" where
  "is_float (VFloat _) = True"
| "is_float _ = False"

text \<open>
  \<^verbatim>\<open>EvalInterpreter.interpret_op\<close>: the assertion, then the match on the
  operation; \<^verbatim>\<open>x, y = args\<close> raises \<^verbatim>\<open>ValueError\<close> unless there are two
  arguments.
\<close>

definition eval_interpret_op :: "op \<Rightarrow> val list \<Rightarrow> error + val" where
  "eval_interpret_op oper as =
     (if \<not> list_all is_float as then Inl AssertionError
      else case oper of
             Add \<Rightarrow> (case as of [VFloat x, VFloat y] \<Rightarrow> Inr (VFloat (x + y))
                              | _ \<Rightarrow> Inl ValueError)
           | Mul \<Rightarrow> (case as of [VFloat x, VFloat y] \<Rightarrow> Inr (VFloat (x * y))
                              | _ \<Rightarrow> Inl ValueError))"

section \<open>The staging interpreter\<close>

text \<open>Python's \<^verbatim>\<open>str\<close> on a non-negative \<^verbatim>\<open>int\<close>.\<close>

definition digit_char :: "nat \<Rightarrow> char" where
  "digit_char d = ''0123456789'' ! d"

fun str_nat :: "nat \<Rightarrow> string" where
  "str_nat n = (if n < 10 then [digit_char n] else str_nat (n div 10) @ [digit_char (n mod 10)])"

declare str_nat.simps [simp del]

definition fresh_var :: "nat \<Rightarrow> state \<Rightarrow> string \<times> state" where
  "fresh_var i s =
     (let st = heap s i;
          n = name_counter st + 1
      in (''v_'' @ str_nat n, s\<lparr>heap := (heap s)(i := st\<lparr>name_counter := n\<rparr>)\<rparr>))"

definition staging_interpret_op :: "nat \<Rightarrow> op \<Rightarrow> val list \<Rightarrow> val comp" where
  "staging_interpret_op i oper as s =
     (let (binder, s1) = fresh_var i s;
          st = heap s1 i;
          s2 = s1\<lparr>heap := (heap s1)(i := st\<lparr>equations := equations st @
                  [\<lparr>var = binder, op = oper, args = as\<rparr>]\<rparr>)\<rparr>
      in (Inr (VStr binder), s2))"

section \<open>The JVP interpreter and the dispatch\<close>

definition dual_number :: "interp \<Rightarrow> val \<Rightarrow> val \<Rightarrow> tdn" where
  "dual_number self p t = TaggedDualNumber self p t"

fun lift :: "interp \<Rightarrow> val \<Rightarrow> tdn" where
  "lift self (VDual x) =
     (if interpreter x = self then x else dual_number self (VDual x) (VFloat 0))"
| "lift self x = dual_number self x (VFloat 0)"

lemma bnd_cong [fundef_cong]:
  assumes "s1 = s2" and "m1 s2 = m2 s2"
    and "\<And>x t. m2 s2 = (Inr x, t) \<Longrightarrow> f1 x t = f2 x t"
  shows "bnd m1 f1 s1 = bnd m2 f2 s2"
  using assms by (auto simp: bnd_def split: prod.splits sum.splits)

lemma set_interpreter_cong [fundef_cong]:
  assumes "i1 = i2" and "s1 = s2"
    and "\<And>t. t = s2\<lparr>current_interpreter := i2\<rparr> \<Longrightarrow> b1 t = b2 t"
  shows "set_interpreter i1 b1 s1 = set_interpreter i2 b2 s2"
  using assms by (simp add: set_interpreter_def)

text \<open>
  \<^verbatim>\<open>interpret_op\<close> of the three interpreter classes, selected by the class of
  the receiver. In the JVP rules the calls \<^verbatim>\<open>add(a, b)\<close> and \<^verbatim>\<open>mul(a, b)\<close> are
  written out as what they are: \<^verbatim>\<open>current_interpreter.interpret_op(op, (a, b))\<close>,
  reading the global at the moment of the call.
\<close>

function interpret_op :: "interp \<Rightarrow> op \<Rightarrow> val list \<Rightarrow> val comp" where
  "interpret_op EvalInterpreter oper as s = (eval_interpret_op oper as, s)"
| "interpret_op (StagingInterpreter i) oper as s = staging_interpret_op i oper as s"
| "interpret_op (JVPInterpreter i prev) oper as s =
     (let self = JVPInterpreter i prev;
          as' = map (lift self) as
      in set_interpreter prev
           (\<lambda>s. case oper of
               Add \<Rightarrow>
                 (case as' of
                    [x, y] \<Rightarrow>
                      bnd (\<lambda>s. interpret_op (current_interpreter s) Add [primal x, primal y] s) (\<lambda>p.
                      bnd (\<lambda>s. interpret_op (current_interpreter s) Add [tangent x, tangent y] s) (\<lambda>t.
                      ret (VDual (dual_number self p t)))) s
                  | _ \<Rightarrow> raise ValueError s)
             | Mul \<Rightarrow>
                 (case as' of
                    [x0, y0] \<Rightarrow>
                      (let x = lift self (VDual x0); y = lift self (VDual y0) in
                      bnd (\<lambda>s. interpret_op (current_interpreter s) Mul [primal x, primal y] s) (\<lambda>p.
                      bnd (\<lambda>s. interpret_op (current_interpreter s) Mul [primal x, tangent y] s) (\<lambda>a.
                      bnd (\<lambda>s. interpret_op (current_interpreter s) Mul [tangent x, primal y] s) (\<lambda>b.
                      bnd (\<lambda>s. interpret_op (current_interpreter s) Add [a, b] s) (\<lambda>t.
                      ret (VDual (dual_number self p t)))))) s)
                  | _ \<Rightarrow> raise ValueError s)) s)"
  by pat_completeness auto

lemma set_interpreter_current:
  "current_interpreter (snd (set_interpreter I body s)) = current_interpreter s"
  by (simp add: set_interpreter_def split: prod.splits)

lemma staging_interpret_op_current:
  "current_interpreter (snd (staging_interpret_op i oper as s)) = current_interpreter s"
  by (simp add: staging_interpret_op_def fresh_var_def Let_def)

lemma interpret_op_dom_current:
  assumes "interpret_op_dom (I, oper, as, s)"
  shows "current_interpreter (snd (interpret_op I oper as s)) = current_interpreter s"
proof (cases I)
  case EvalInterpreter
  with assms show ?thesis by (simp add: interpret_op.psimps)
next
  case (StagingInterpreter i)
  with assms show ?thesis by (simp add: interpret_op.psimps staging_interpret_op_current)
next
  case (JVPInterpreter i prev)
  with assms show ?thesis
    by (simp only: interpret_op.psimps Let_def set_interpreter_current)
qed

lemma interpret_op_dom_current':
  assumes "interpret_op_dom (I, oper, as, s)" and "interpret_op I oper as s = (r, s')"
  shows "current_interpreter s' = current_interpreter s"
  using interpret_op_dom_current [OF assms(1)] assms(2) by simp

termination interpret_op
proof (relation "measure (\<lambda>(I, oper, as, s). size I)", goal_cases)
  case 1
  show ?case by simp
next
  case 2
  then show ?case by simp
next
  case (3 i prev oper as s x xa t x21 x22 x21a x22a xaa ta)
  then have "current_interpreter ta = current_interpreter t"
    by (blast intro: interpret_op_dom_current')
  with 3 show ?case by simp
next
  case 4
  then show ?case by simp
next
  case (5 i prev oper as s x xa t x21 x22 x21a x22a xaa xab xac ta)
  then have "current_interpreter ta = current_interpreter t"
    by (blast intro: interpret_op_dom_current')
  with 5 show ?case by simp
next
  case (6 i prev oper as s x xa t x21 x22 x21a x22a xaa xab xac ta xad tb)
  then have "current_interpreter ta = current_interpreter t"
    and "current_interpreter tb = current_interpreter ta"
    by (blast intro: interpret_op_dom_current')+
  with 6 show ?case by simp
next
  case (7 i prev oper as s x xa t x21 x22 x21a x22a xaa xab xac ta xad tb xae tc)
  then have "current_interpreter ta = current_interpreter t"
    and "current_interpreter tb = current_interpreter ta"
    and "current_interpreter tc = current_interpreter tb"
    by (blast intro: interpret_op_dom_current')+
  with 7 show ?case by simp
qed

text \<open>The user-facing \<^verbatim>\<open>add\<close> and \<^verbatim>\<open>mul\<close> dispatch to the current interpreter.\<close>

definition add :: "val \<Rightarrow> val \<Rightarrow> val comp" where
  "add x y s = interpret_op (current_interpreter s) Add [x, y] s"

definition mul :: "val \<Rightarrow> val \<Rightarrow> val comp" where
  "mul x y s = interpret_op (current_interpreter s) Mul [x, y] s"

text \<open>\<^verbatim>\<open>def foo(x): return mul(x, add(x, 3.0))\<close>\<close>

definition foo :: "val \<Rightarrow> val comp" where
  "foo x = bnd (add x (VFloat 3)) (\<lambda>t. mul x t)"

text \<open>
  \<^verbatim>\<open>jvp\<close>: the new interpreter object takes the next free address; the
  result of \<^verbatim>\<open>f\<close> is lifted after the scope has been left.
\<close>

definition jvp :: "(val \<Rightarrow> val comp) \<Rightarrow> val \<Rightarrow> val \<Rightarrow> (val \<times> val) comp" where
  "jvp f p t s =
     (let jvp_interpreter = JVPInterpreter (next_id s) (current_interpreter s);
          s1 = s\<lparr>next_id := Suc (next_id s)\<rparr>;
          dual_number_in = dual_number jvp_interpreter p t
      in bnd (set_interpreter jvp_interpreter (f (VDual dual_number_in)))
           (\<lambda>result.
              let dual_number_out = lift jvp_interpreter result
              in ret (primal dual_number_out, tangent dual_number_out)) s1)"

definition derivative :: "(val \<Rightarrow> val comp) \<Rightarrow> val \<Rightarrow> val comp" where
  "derivative f x = bnd (jvp f x (VFloat 1)) (\<lambda>(_, t). ret t)"

fun nth_order_derivative :: "nat \<Rightarrow> (val \<Rightarrow> val comp) \<Rightarrow> val \<Rightarrow> val comp" where
  "nth_order_derivative 0 f x = f x"
| "nth_order_derivative (Suc n) f x = derivative (\<lambda>x. nth_order_derivative n f x) x"

text \<open>
  The perturbation confusion example \<^verbatim>\<open>f\<close>: \<^verbatim>\<open>g\<close> returns the captured \<^verbatim>\<open>x\<close> and
  ignores its argument.
\<close>

definition f_example :: "val \<Rightarrow> val comp" where
  "f_example x = (let g = (\<lambda>y. ret x)
          in bnd (derivative g (VFloat 0)) (\<lambda>should_be_zero. mul x should_be_zero))"

section \<open>Building and evaluating a jaxpr\<close>

fun fresh_vars :: "nat \<Rightarrow> nat \<Rightarrow> state \<Rightarrow> string list \<times> state" where
  "fresh_vars i 0 s = ([], s)"
| "fresh_vars i (Suc n) s =
     (let (v, s1) = fresh_var i s;
          (vs, s2) = fresh_vars i n s1
      in (v # vs, s2))"

text \<open>
  \<^verbatim>\<open>build_jaxpr\<close>: a new \<^verbatim>\<open>StagingInterpreter\<close> with empty fields, one fresh
  variable per argument, \<^verbatim>\<open>f\<close> run on them inside the scope. The returned
  jaxpr holds the interpreter's equation list as it is when \<^verbatim>\<open>f\<close> returns.
\<close>

definition build_jaxpr :: "(val list \<Rightarrow> val comp) \<Rightarrow> nat \<Rightarrow> jaxpr comp" where
  "build_jaxpr f num_args s =
     (let i = next_id s;
          interpreter = StagingInterpreter i;
          s1 = s\<lparr>next_id := Suc i,
                 heap := (heap s)(i := \<lparr>equations = [], name_counter = 0\<rparr>)\<rparr>;
          (ps, s2) = fresh_vars i num_args s1
      in bnd (set_interpreter interpreter (f (map VStr ps)))
           (\<lambda>result s3.
              (Inr \<lparr>parameters = ps, jaxpr_equations = equations (heap s3 i),
                    return_val = result\<rparr>, s3)) s2)"

text \<open>\<^verbatim>\<open>eval_atom\<close>: a \<^verbatim>\<open>str\<close> is looked up (\<^verbatim>\<open>KeyError\<close> when unbound).\<close>

fun eval_atom :: "(string \<rightharpoonup> val) \<Rightarrow> val \<Rightarrow> error + val" where
  "eval_atom env (VStr x) = (case env x of None \<Rightarrow> Inl KeyError | Some v \<Rightarrow> Inr v)"
| "eval_atom env x = Inr x"

fun eval_atoms :: "(string \<rightharpoonup> val) \<Rightarrow> val list \<Rightarrow> error + val list" where
  "eval_atoms env [] = Inr []"
| "eval_atoms env (x # xs) =
     (case eval_atom env x of
        Inl e \<Rightarrow> Inl e
      | Inr v \<Rightarrow> (case eval_atoms env xs of Inl e \<Rightarrow> Inl e | Inr vs \<Rightarrow> Inr (v # vs)))"

definition from_result :: "error + 'a \<Rightarrow> 'a comp" where
  "from_result r s = (r, s)"

text \<open>The loop over the equations, dispatching each to the current interpreter.\<close>

fun eval_equations :: "(string \<rightharpoonup> val) \<Rightarrow> equation list \<Rightarrow> (string \<rightharpoonup> val) comp" where
  "eval_equations env [] s = (Inr env, s)"
| "eval_equations env (eqn # eqns) s =
     bnd (from_result (eval_atoms env (args eqn))) (\<lambda>vs.
     bnd (\<lambda>s. interpret_op (current_interpreter s) (op eqn) vs s) (\<lambda>v.
     eval_equations (env(var eqn \<mapsto> v)) eqns)) s"

text \<open>\<^verbatim>\<open>dict(zip(jaxpr.parameters, args))\<close>: a later pair overrides an earlier.\<close>

definition dict_zip :: "string list \<Rightarrow> val list \<Rightarrow> (string \<rightharpoonup> val)" where
  "dict_zip ks vs = fold (\<lambda>(k, v) env. env(k \<mapsto> v)) (zip ks vs) Map.empty"

definition eval_jaxpr :: "jaxpr \<Rightarrow> val list \<Rightarrow> val comp" where
  "eval_jaxpr j as =
     bnd (eval_equations (dict_zip (parameters j) as) (jaxpr_equations j)) (\<lambda>env.
     from_result (eval_atom env (return_val j)))"

section \<open>The textual form of a jaxpr\<close>

text \<open>\<^verbatim>\<open>sep.join(items)\<close> on items that are all \<^verbatim>\<open>str\<close>.\<close>

fun join_str :: "string \<Rightarrow> string list \<Rightarrow> string" where
  "join_str sep [] = []"
| "join_str sep [x] = x"
| "join_str sep (x # y # ys) = x @ sep @ join_str sep (y # ys)"

fun strs_of :: "val list \<Rightarrow> string list option" where
  "strs_of [] = Some []"
| "strs_of (VStr x # xs) = (case strs_of xs of None \<Rightarrow> None | Some ys \<Rightarrow> Some (x # ys))"
| "strs_of (_ # xs) = None"

text \<open>
  \<^verbatim>\<open>sep.join(items)\<close> on arbitrary objects: it raises \<^verbatim>\<open>TypeError\<close> when an
  item is not a \<^verbatim>\<open>str\<close>.
\<close>

definition join :: "string \<Rightarrow> val list \<Rightarrow> error + string" where
  "join sep xs = (case strs_of xs of None \<Rightarrow> Inl TypeError | Some ys \<Rightarrow> Inr (join_str sep ys))"

fun op_str :: "op \<Rightarrow> string" where
  "op_str Add = ''Op.add''"
| "op_str Mul = ''Op.mul''"

text \<open>
  \<^verbatim>\<open>Jaxpr.__str__\<close>. The builtin \<^verbatim>\<open>str\<close>, applied to the arguments of an
  equation, is the parameter \<open>str\<close>. The list \<^verbatim>\<open>lines\<close> holds the header and
  the equation lines, which are strings, and then \<^verbatim>\<open>self.return_val\<close> as it is.
\<close>

definition jaxpr_str :: "(val \<Rightarrow> string) \<Rightarrow> jaxpr \<Rightarrow> error + string" where
  "jaxpr_str str j =
     (let lines = [VStr (join_str '', '' (parameters j) @ '' ->'')];
          lines = lines @ map (\<lambda>eqn.
              let args_str = join_str '', '' (map str (args eqn))
              in VStr (''  '' @ var eqn @ '' = '' @ op_str (op eqn) @ ''('' @ args_str @ '')''))
            (jaxpr_equations j);
          lines = lines @ [return_val j]
      in join [CHR 0x0A] lines)"

text \<open>Calling a one-parameter Python function as \<^verbatim>\<open>f(*parameters)\<close>.\<close>

fun call1 :: "(val \<Rightarrow> val comp) \<Rightarrow> val list \<Rightarrow> val comp" where
  "call1 f [x] = f x"
| "call1 f _ = raise TypeError"

section \<open>Programs over the dispatch API\<close>

text \<open>
  A Python function handed to \<^verbatim>\<open>jvp\<close> or \<^verbatim>\<open>build_jaxpr\<close> acts on the interpreter
  state only through the dispatch API. The computations it can perform that
  way: returning, raising, sequencing, \<^verbatim>\<open>add\<close>, \<^verbatim>\<open>mul\<close>, \<^verbatim>\<open>jvp\<close>,
  \<^verbatim>\<open>eval_jaxpr\<close> and \<^verbatim>\<open>build_jaxpr\<close>, the last three on functions of the same
  kind.
\<close>

inductive api :: "val comp \<Rightarrow> bool" where
  api_ret: "api (ret v)"
| api_raise: "api (raise e)"
| api_add: "api (add x y)"
| api_mul: "api (mul x y)"
| api_bnd: "api m \<Longrightarrow> (\<And>x. api (k x)) \<Longrightarrow> api (bnd m k)"
| api_jvp: "(\<And>d. api (g d)) \<Longrightarrow> (\<And>p t. api (k p t)) \<Longrightarrow>
            api (bnd (jvp g x y) (\<lambda>(p, t). k p t))"
| api_eval_jaxpr: "api (eval_jaxpr j as)"
| api_build_jaxpr: "(\<And>xs. api (h xs)) \<Longrightarrow> (\<And>j. api (k' j)) \<Longrightarrow>
            api (bnd (build_jaxpr h n) k')"

section \<open>Names and scoping of a jaxpr\<close>

text \<open>The name \<^verbatim>\<open>fresh_var\<close> returns when the counter reaches \<open>k\<close>.\<close>

definition vname :: "nat \<Rightarrow> string" where
  "vname k = ''v_'' @ str_nat k"

text \<open>
  An atom is in scope when it is not a variable name or is one of the names
  bound so far; the equations are scoped when each one's arguments are in scope
  of the parameters and the results of the equations before it; the jaxpr is
  well scoped when its equations are and its return value is in scope of all
  its names. Its names are distinct when no parameter or equation result
  repeats.
\<close>

fun atom_ok :: "string list \<Rightarrow> val \<Rightarrow> bool" where
  "atom_ok bound (VStr x) = (x \<in> set bound)"
| "atom_ok bound _ = True"

fun scoped_eqns :: "string list \<Rightarrow> equation list \<Rightarrow> bool" where
  "scoped_eqns bound [] = True"
| "scoped_eqns bound (e # es) =
     (list_all (atom_ok bound) (args e) \<and> scoped_eqns (bound @ [var e]) es)"

definition well_scoped :: "jaxpr \<Rightarrow> bool" where
  "well_scoped j =
     (scoped_eqns (parameters j) (jaxpr_equations j) \<and>
      atom_ok (parameters j @ map var (jaxpr_equations j)) (return_val j))"

definition distinct_names :: "jaxpr \<Rightarrow> bool" where
  "distinct_names j = distinct (parameters j @ map var (jaxpr_equations j))"

text \<open>The jaxpr the notebook prints for \<^verbatim>\<open>build_jaxpr(foo, 1)\<close>.\<close>

definition foo_jaxpr :: jaxpr where
  "foo_jaxpr =
     \<lparr>parameters = [''v_1''],
      jaxpr_equations =
        [\<lparr>var = ''v_2'', op = Add, args = [VStr ''v_1'', VFloat 3]\<rparr>,
         \<lparr>var = ''v_3'', op = Mul, args = [VStr ''v_1'', VStr ''v_2'']\<rparr>],
      return_val = VStr ''v_3''\<rparr>"

text \<open>
  The jaxpr of the function \<^verbatim>\<open>lambda y: add("v_3", y)\<close>, whose first operand is
  a variable name that its builder did not hand out, as when the function
  closes over the third parameter of an enclosing \<^verbatim>\<open>build_jaxpr\<close>.
\<close>

definition capture_jaxpr :: jaxpr where
  "capture_jaxpr =
     \<lparr>parameters = [''v_1''],
      jaxpr_equations = [\<lparr>var = ''v_2'', op = Add, args = [VStr ''v_3'', VStr ''v_1'']\<rparr>],
      return_val = VStr ''v_2''\<rparr>"

text \<open>
  The invariant of a staging interpreter at address \<open>i\<close> that was given \<open>m\<close>
  parameters: its address is allocated, its counter has passed \<open>m\<close>, and its
  equations bind, in order, exactly the names handed out after the parameters.
  The names it knows are the parameters \<open>ps\<close> and the results of its equations.
\<close>

definition stg_inv :: "nat \<Rightarrow> staging \<Rightarrow> bool" where
  "stg_inv m st =
     (m \<le> name_counter st \<and>
      map var (equations st) = map vname [Suc m ..< Suc (name_counter st)])"

definition good :: "nat \<Rightarrow> nat \<Rightarrow> state \<Rightarrow> bool" where
  "good i m s = (i < next_id s \<and> stg_inv m (heap s i))"

definition known :: "nat \<Rightarrow> string list \<Rightarrow> state \<Rightarrow> string list" where
  "known i ps s = ps @ map var (equations (heap s i))"

section \<open>Functions that pass on only what they hold\<close>

text \<open>
  A jaxpr is closed when every equation has two arguments, each a float or a
  name bound before it, and the return value is a float or a bound name.
\<close>

fun atom_in :: "string set \<Rightarrow> val \<Rightarrow> bool" where
  "atom_in N (VFloat r) = True"
| "atom_in N (VStr x) = (x \<in> N)"
| "atom_in N (VDual d) = False"

fun closed_eqns :: "string list \<Rightarrow> equation list \<Rightarrow> bool" where
  "closed_eqns bound [] = True"
| "closed_eqns bound (e # es) =
     (length (args e) = 2 \<and> list_all (atom_in (set bound)) (args e) \<and>
      closed_eqns (bound @ [var e]) es)"

definition closed_jaxpr :: "jaxpr \<Rightarrow> bool" where
  "closed_jaxpr j =
     (closed_eqns (parameters j) (jaxpr_equations j) \<and>
      atom_in (set (parameters j @ map var (jaxpr_equations j))) (return_val j))"

text \<open>
  A value is in hand when it is a float literal or one of the values \<open>V\<close> the
  running function holds: its parameters and the results of its earlier calls.
  \<open>uses V c\<close>: the computation \<open>c\<close> acts through the dispatch API only, and
  passes to it and returns only values in hand. The function handed to \<^verbatim>\<open>jvp\<close>
  may also use what the function around it holds (a closure); the function
  handed to a nested \<^verbatim>\<open>build_jaxpr\<close> uses its own parameters only; \<^verbatim>\<open>eval_jaxpr\<close>
  is applied to a closed jaxpr, such as the one a nested \<^verbatim>\<open>build_jaxpr\<close>
  returned.
\<close>

definition in_hand :: "val set \<Rightarrow> val \<Rightarrow> bool" where
  "in_hand V v = (v \<in> V \<or> is_float v)"

inductive uses :: "val set \<Rightarrow> val comp \<Rightarrow> bool" where
  uses_ret: "in_hand V v \<Longrightarrow> uses V (ret v)"
| uses_raise: "uses V (raise e)"
| uses_add: "in_hand V x \<Longrightarrow> in_hand V y \<Longrightarrow> uses V (add x y)"
| uses_mul: "in_hand V x \<Longrightarrow> in_hand V y \<Longrightarrow> uses V (mul x y)"
| uses_bnd: "uses V m \<Longrightarrow> (\<And>r. uses (insert r V) (k r)) \<Longrightarrow> uses V (bnd m k)"
| uses_jvp: "(\<And>d. uses (insert d V) (g d)) \<Longrightarrow> in_hand V p \<Longrightarrow> in_hand V t \<Longrightarrow>
             (\<And>a b. uses (insert a (insert b V)) (k a b)) \<Longrightarrow>
             uses V (bnd (jvp g p t) (\<lambda>(a, b). k a b))"
| uses_eval_jaxpr: "closed_jaxpr j \<Longrightarrow> list_all (in_hand V) as \<Longrightarrow> uses V (eval_jaxpr j as)"
| uses_build_jaxpr: "(\<And>xs. uses (set xs) (h xs)) \<Longrightarrow> (\<And>j. closed_jaxpr j \<Longrightarrow> uses V (k' j)) \<Longrightarrow>
             (\<And>j. api (k' j)) \<Longrightarrow> uses V (bnd (build_jaxpr h n) k')"

text \<open>
  The staging interpreter at the bottom of a chain of JVP interpreters, and the
  values that arise while the interpreter \<open>I\<close> is current and the names \<open>N\<close> are
  bound: floats under the evaluating interpreter, floats and bound names under
  a staging interpreter, and under a JVP interpreter the values of its previous
  interpreter and the dual numbers it owns whose components are such values.
\<close>

fun root :: "interp \<Rightarrow> nat option" where
  "root EvalInterpreter = None"
| "root (StagingInterpreter i) = Some i"
| "root (JVPInterpreter k prev) = root prev"

fun value_at :: "string set \<Rightarrow> interp \<Rightarrow> val \<Rightarrow> bool" where
  "value_at N EvalInterpreter v = is_float v"
| "value_at N (StagingInterpreter i) v = atom_in N v"
| "value_at N (JVPInterpreter k prev) v =
     (value_at N prev v \<or>
      (case v of
         VDual d \<Rightarrow> interpreter d = JVPInterpreter k prev \<and>
                    value_at N prev (primal d) \<and> value_at N prev (tangent d)
       | _ \<Rightarrow> False))"

text \<open>
  \<open>extends i ps s s'\<close>: from \<open>s\<close> to \<open>s'\<close> the staging interpreter \<open>i\<close> has only
  gained equations and they are closed over the parameters \<open>ps\<close>, the current
  interpreter is the same, no address was given up, and the other interpreters
  allocated in \<open>s\<close> are as they were.
\<close>

definition closed_state :: "nat \<Rightarrow> string list \<Rightarrow> state \<Rightarrow> bool" where
  "closed_state i ps s = closed_eqns ps (equations (heap s i))"

definition extends :: "nat \<Rightarrow> string list \<Rightarrow> state \<Rightarrow> state \<Rightarrow> bool" where
  "extends i ps s s' =
     (closed_state i ps s' \<and>
      set (known i ps s) \<subseteq> set (known i ps s') \<and>
      current_interpreter s' = current_interpreter s \<and>
      next_id s \<le> next_id s' \<and>
      (\<forall>i'. i' \<noteq> i \<longrightarrow> i' < next_id s \<longrightarrow> heap s' i' = heap s i'))"

text \<open>
  The jaxpr staged for \<^verbatim>\<open>lambda x: derivative(foo, x)\<close>: the JVP rules applied to
  \<^verbatim>\<open>foo\<close> with the primal \<^verbatim>\<open>v_1\<close> and the tangent \<^verbatim>\<open>1.0\<close>.
\<close>

definition derivative_foo_jaxpr :: jaxpr where
  "derivative_foo_jaxpr =
     \<lparr>parameters = [''v_1''],
      jaxpr_equations =
        [\<lparr>var = ''v_2'', op = Add, args = [VStr ''v_1'', VFloat 3]\<rparr>,
         \<lparr>var = ''v_3'', op = Add, args = [VFloat 1, VFloat 0]\<rparr>,
         \<lparr>var = ''v_4'', op = Mul, args = [VStr ''v_1'', VStr ''v_2'']\<rparr>,
         \<lparr>var = ''v_5'', op = Mul, args = [VStr ''v_1'', VStr ''v_3'']\<rparr>,
         \<lparr>var = ''v_6'', op = Mul, args = [VFloat 1, VStr ''v_2'']\<rparr>,
         \<lparr>var = ''v_7'', op = Add, args = [VStr ''v_5'', VStr ''v_6'']\<rparr>],
      return_val = VStr ''v_7''\<rparr>"

section \<open>The nested-structure flattener\<close>

text \<open>
  Modelled from the spec: the failures of the nested-structure flattener's
  \<^verbatim>\<open>unflatten\<close>. Of the flattener's implementation, the sources followed here
  hold only the node kinds of \<^verbatim>\<open>jaxlib/pytree.proto\<close>; the definitions of this
  section are written from the spec's description of it.
\<close>

datatype flat_error = ArityMismatch | StructureMismatch

text \<open>
  Modelled from the spec: the supported nested structures. A value is a leaf
  (any value that is not a supported container), the empty node \<^verbatim>\<open>None\<close>, a
  sequence, a mapping with named keys, or a custom container, given as its
  type tag, its auxiliary data and its children (what its registered flatten
  function supplies).
\<close>

datatype 'a pytree =
    Leaf 'a
  | NoneNode
  | Sequence "'a pytree list"
  | Mapping "(string \<times> 'a pytree) list"
  | Custom string string "'a pytree list"

text \<open>
  Modelled from the spec: the structure descriptor, which records the
  container shape (leaf, sequence of N, mapping with named keys, and so on)
  without the leaf values.
\<close>

datatype descriptor =
    DLeaf
  | DNone
  | DSequence "descriptor list"
  | DMapping "string list" "descriptor list"
  | DCustom string string "descriptor list"

text \<open>
  Modelled from the spec: the leaves of a value, in order, found by walking
  the containers recursively.
\<close>

fun leaves :: "'a pytree \<Rightarrow> 'a list" where
  "leaves (Leaf x) = [x]"
| "leaves NoneNode = []"
| "leaves (Sequence ts) = concat (map leaves ts)"
| "leaves (Mapping kts) = concat (map (\<lambda>kt. leaves (snd kt)) kts)"
| "leaves (Custom tag aux ts) = concat (map leaves ts)"

text \<open>Modelled from the spec: the descriptor of a value.\<close>

fun describe :: "'a pytree \<Rightarrow> descriptor" where
  "describe (Leaf x) = DLeaf"
| "describe NoneNode = DNone"
| "describe (Sequence ts) = DSequence (map describe ts)"
| "describe (Mapping kts) = DMapping (map fst kts) (map (\<lambda>kt. describe (snd kt)) kts)"
| "describe (Custom tag aux ts) = DCustom tag aux (map describe ts)"

text \<open>
  Modelled from the spec: \<^verbatim>\<open>flatten\<close> returns the leaves together with the
  descriptor.
\<close>

definition flatten :: "'a pytree \<Rightarrow> 'a list \<times> descriptor" where
  "flatten t = (leaves t, describe t)"

text \<open>
  Modelled from the spec: the leaf count a descriptor implies.
\<close>

fun num_leaves :: "descriptor \<Rightarrow> nat" where
  "num_leaves DLeaf = 1"
| "num_leaves DNone = 0"
| "num_leaves (DSequence ds) = sum_list (map num_leaves ds)"
| "num_leaves (DMapping ks ds) = sum_list (map num_leaves ds)"
| "num_leaves (DCustom tag aux ds) = sum_list (map num_leaves ds)"

text \<open>
  Modelled from the spec: the structural inverse of \<^verbatim>\<open>flatten\<close>, taking the
  leaves from the front of the sequence. It fails with \<^verbatim>\<open>StructureMismatch\<close>
  when a mapping's keys do not match its children or a custom container's tag
  is not registered.
\<close>

fun rebuild :: "(string \<Rightarrow> bool) \<Rightarrow> descriptor \<Rightarrow> 'a list \<Rightarrow> flat_error + 'a pytree \<times> 'a list"
  and rebuild_list :: "(string \<Rightarrow> bool) \<Rightarrow> descriptor list \<Rightarrow> 'a list \<Rightarrow> flat_error + 'a pytree list \<times> 'a list" where
  "rebuild reg DLeaf xs = (case xs of [] \<Rightarrow> Inl ArityMismatch | x # rest \<Rightarrow> Inr (Leaf x, rest))"
| "rebuild reg DNone xs = Inr (NoneNode, xs)"
| "rebuild reg (DSequence ds) xs =
     (case rebuild_list reg ds xs of Inl e \<Rightarrow> Inl e | Inr (ts, rest) \<Rightarrow> Inr (Sequence ts, rest))"
| "rebuild reg (DMapping ks ds) xs =
     (if length ks \<noteq> length ds then Inl StructureMismatch
      else case rebuild_list reg ds xs of
             Inl e \<Rightarrow> Inl e
           | Inr (ts, rest) \<Rightarrow> Inr (Mapping (zip ks ts), rest))"
| "rebuild reg (DCustom tag aux ds) xs =
     (if \<not> reg tag then Inl StructureMismatch
      else case rebuild_list reg ds xs of
             Inl e \<Rightarrow> Inl e
           | Inr (ts, rest) \<Rightarrow> Inr (Custom tag aux ts, rest))"
| "rebuild_list reg [] xs = Inr ([], xs)"
| "rebuild_list reg (d # ds) xs =
     (case rebuild reg d xs of
        Inl e \<Rightarrow> Inl e
      | Inr (t, rest) \<Rightarrow>
          (case rebuild_list reg ds rest of
             Inl e \<Rightarrow> Inl e
           | Inr (ts, rest') \<Rightarrow> Inr (t # ts, rest')))"

text \<open>
  Modelled from the spec: \<^verbatim>\<open>unflatten\<close> fails with \<^verbatim>\<open>ArityMismatch\<close> when the
  number of leaves is not the descriptor's leaf count, and otherwise rebuilds
  the value.
\<close>

definition unflatten :: "(string \<Rightarrow> bool) \<Rightarrow> descriptor \<Rightarrow> 'a list \<Rightarrow> flat_error + 'a pytree" where
  "unflatten reg d xs =
     (if length xs \<noteq> num_leaves d then Inl ArityMismatch
      else case rebuild reg d xs of Inl e \<Rightarrow> Inl e | Inr (t, rest) \<Rightarrow> Inr t)"

text \<open>
  Modelled from the spec: a supported structure is one whose custom
  containers all have registered tags.
\<close>

fun registered :: "(string \<Rightarrow> bool) \<Rightarrow> 'a pytree \<Rightarrow> bool" where
  "registered reg (Leaf x) = True"
| "registered reg NoneNode = True"
| "registered reg (Sequence ts) = list_all (registered reg) ts"
| "registered reg (Mapping kts) = list_all (\<lambda>kt. registered reg (snd kt)) kts"
| "registered reg (Custom tag aux ts) = (reg tag \<and> list_all (registered reg) ts)"

text \<open>
  Modelled from the spec: the container shape of a value, which is the value
  with its leaf values erased.
\<close>

definition shape :: "'a pytree \<Rightarrow> unit pytree" where
  "shape t = map_pytree (\<lambda>_. ()) t"

section \<open>Evaluation rules\<close>

lemmas run_simps =
  bnd_def ret_def raise_def from_result_def set_interpreter_def add_def mul_def foo_def
  jvp_def derivative_def eval_interpret_op_def dual_number_def Let_def

lemmas staging_simps =
  build_jaxpr_def staging_interpret_op_def fresh_var_def eval_jaxpr_def dict_zip_def

lemma str_nat_digits:
  "str_nat (Suc 0) = ''1''" "str_nat (Suc (Suc 0)) = ''2''"
  "str_nat (Suc (Suc (Suc 0))) = ''3''"
  by (simp_all add: str_nat.simps digit_char_def)

section \<open>The dispatch context\<close>

text \<open>
  C2. Whatever interpreter is installed and whatever the enclosed computation
  does, return or raise, on exit \<^verbatim>\<open>current_interpreter\<close> is the interpreter that
  was current on entry, and the outcome of the scope is the outcome of the
  enclosed computation run with the new interpreter current.
\<close>

theorem set_interpreter_restores:
  "current_interpreter (snd (set_interpreter I body s)) = current_interpreter s \<and>
   fst (set_interpreter I body s) = fst (body (s\<lparr>current_interpreter := I\<rparr>))"
  by (simp add: set_interpreter_def split: prod.splits)

section \<open>The evaluating interpreter: arguments must be floats\<close>





section \<open>Forward-mode differentiation\<close>

lemma initial_state_current: "current_interpreter initial_state = EvalInterpreter"
  by (simp add: initial_state_def)

lemma nth_order_derivative_numerals:
  "nth_order_derivative 1 h x = derivative (nth_order_derivative 0 h) x"
  "nth_order_derivative 2 h x = derivative (nth_order_derivative 1 h) x"
  "nth_order_derivative 3 h x = derivative (nth_order_derivative 2 h) x"
  "nth_order_derivative 4 h x = derivative (nth_order_derivative 3 h) x"
  by (simp_all add: numeral_eq_Suc)

lemma foo_derivative_0:
  "current_interpreter s = EvalInterpreter \<Longrightarrow>
   fst (nth_order_derivative 0 foo (VFloat 2) s) = Inr (VFloat 10)"
  by (simp add: run_simps)

lemma foo_derivative_1:
  "current_interpreter s = EvalInterpreter \<Longrightarrow>
   fst (nth_order_derivative 1 foo (VFloat 2) s) = Inr (VFloat 7)"
  by (simp add: nth_order_derivative_numerals run_simps)

lemma foo_derivative_2:
  "current_interpreter s = EvalInterpreter \<Longrightarrow>
   fst (nth_order_derivative 2 foo (VFloat 2) s) = Inr (VFloat 2)"
  by (simp add: nth_order_derivative_numerals run_simps)

lemma foo_derivative_3:
  "current_interpreter s = EvalInterpreter \<Longrightarrow>
   fst (nth_order_derivative 3 foo (VFloat 2) s) = Inr (VFloat 0)"
  by (simp add: nth_order_derivative_numerals run_simps)

lemma foo_derivative_4:
  "current_interpreter s = EvalInterpreter \<Longrightarrow>
   fst (nth_order_derivative 4 foo (VFloat 2) s) = Inr (VFloat 0)"
  by (simp add: nth_order_derivative_numerals run_simps)

text \<open>
  C3. Started with the evaluating interpreter current (any addresses already
  in use, any heap), the derivatives of order 0 to 4 of \<^verbatim>\<open>foo\<close> at 2.0,
  computed by nesting \<^verbatim>\<open>jvp\<close>, are 10.0, 7.0, 2.0, 0.0 and 0.0.
\<close>

theorem higher_order_derivatives_foo:
  assumes "current_interpreter s = EvalInterpreter"
  shows "fst (nth_order_derivative 0 foo (VFloat 2) s) = Inr (VFloat 10) \<and>
         fst (nth_order_derivative 1 foo (VFloat 2) s) = Inr (VFloat 7) \<and>
         fst (nth_order_derivative 2 foo (VFloat 2) s) = Inr (VFloat 2) \<and>
         fst (nth_order_derivative 3 foo (VFloat 2) s) = Inr (VFloat 0) \<and>
         fst (nth_order_derivative 4 foo (VFloat 2) s) = Inr (VFloat 0)"
  using assms foo_derivative_0 foo_derivative_1 foo_derivative_2 foo_derivative_3
    foo_derivative_4 by blast

theorem higher_order_derivatives_foo_witness:
  "current_interpreter initial_state = EvalInterpreter \<and>
   fst (nth_order_derivative 2 foo (VFloat 2) initial_state) = Inr (VFloat 2) \<and>
   fst (nth_order_derivative 4 foo (VFloat 2) initial_state) = Inr (VFloat 0)"
  using higher_order_derivatives_foo [OF initial_state_current] initial_state_current
  by blast

text \<open>
  C1. Differentiating the example \<^verbatim>\<open>f\<close> at 0.0 gives tangent 0.0: the inner
  \<^verbatim>\<open>jvp\<close> sees the captured outer dual number \<^verbatim>\<open>x\<close> as a constant, because
  \<^verbatim>\<open>lift\<close> wraps a dual number that belongs to another interpreter with
  tangent zero.
\<close>

theorem perturbation_confusion_avoided:
  "(current_interpreter s = EvalInterpreter \<longrightarrow>
      fst (jvp f_example (VFloat 0) (VFloat 1) s) = Inr (VFloat 0, VFloat 0) \<and>
      fst (derivative f_example (VFloat 0) s) = Inr (VFloat 0)) \<and>
   (interpreter d \<noteq> self \<longrightarrow>
      lift self (VDual d) = TaggedDualNumber self (VDual d) (VFloat 0))"
  by (simp add: run_simps f_example_def)

theorem perturbation_confusion_avoided_witness:
  "current_interpreter initial_state = EvalInterpreter \<and>
   fst (derivative f_example (VFloat 0) initial_state) = Inr (VFloat 0) \<and>
   interpreter (TaggedDualNumber (JVPInterpreter 0 EvalInterpreter) (VFloat 0) (VFloat 1))
     \<noteq> JVPInterpreter 1 (JVPInterpreter 0 EvalInterpreter) \<and>
   lift (JVPInterpreter 1 (JVPInterpreter 0 EvalInterpreter))
     (VDual (TaggedDualNumber (JVPInterpreter 0 EvalInterpreter) (VFloat 0) (VFloat 1)))
   = TaggedDualNumber (JVPInterpreter 1 (JVPInterpreter 0 EvalInterpreter))
       (VDual (TaggedDualNumber (JVPInterpreter 0 EvalInterpreter) (VFloat 0) (VFloat 1)))
       (VFloat 0)"
  using perturbation_confusion_avoided [of initial_state
      "TaggedDualNumber (JVPInterpreter 0 EvalInterpreter) (VFloat 0) (VFloat 1)"
      "JVPInterpreter 1 (JVPInterpreter 0 EvalInterpreter)"]
    initial_state_current
  by simp

section \<open>Staging \<^verbatim>\<open>foo\<close> and evaluating the result\<close>

lemma build_jaxpr_foo: "fst (build_jaxpr (call1 foo) 1 s) = Inr foo_jaxpr"
  by (simp add: staging_simps run_simps str_nat_digits foo_jaxpr_def)

lemma build_jaxpr_foo_current:
  "current_interpreter (snd (build_jaxpr (call1 foo) 1 s)) = current_interpreter s"
  by (simp add: staging_simps run_simps)

lemma eval_foo_jaxpr:
  "current_interpreter s = EvalInterpreter \<Longrightarrow>
   eval_jaxpr foo_jaxpr [VFloat 2] s = (Inr (VFloat 10), s)"
  by (simp add: staging_simps run_simps foo_jaxpr_def)

lemma staging_appends:
  "current_interpreter s = StagingInterpreter i \<Longrightarrow>
   equations (heap (snd (interpret_op (current_interpreter s) oper [x, y] s)) i)
     = equations (heap s i) @
       [\<lparr>var = vname (Suc (name_counter (heap s i))), op = oper, args = [x, y]\<rparr>]"
  by (simp add: staging_interpret_op_def fresh_var_def Let_def vname_def)

text \<open>
  C5. \<^verbatim>\<open>build_jaxpr(foo, 1)\<close> returns a jaxpr with one parameter, two
  equations, the first an \<^verbatim>\<open>add\<close> and the second a \<^verbatim>\<open>mul\<close> (the order in which
  \<^verbatim>\<open>foo\<close> invokes them), and one return atom; evaluating it on 2.0 under the
  evaluating interpreter returns 10.0. In general, while a staging interpreter
  is current, each call of \<^verbatim>\<open>add\<close> or \<^verbatim>\<open>mul\<close> appends exactly one equation,
  for that operation and those arguments, to the end of its list.
\<close>

theorem staging_fidelity_foo:
  "(\<exists>j. fst (build_jaxpr (call1 foo) 1 s) = Inr j \<and>
        length (parameters j) = 1 \<and>
        map op (jaxpr_equations j) = [Add, Mul] \<and>
        j = foo_jaxpr) \<and>
   (current_interpreter s = EvalInterpreter \<longrightarrow>
      fst (bnd (build_jaxpr (call1 foo) 1) (\<lambda>j. eval_jaxpr j [VFloat 2]) s)
        = Inr (VFloat 10)) \<and>
   (current_interpreter s = StagingInterpreter i \<longrightarrow>
      equations (heap (snd (add x y s)) i)
        = equations (heap s i) @
          [\<lparr>var = vname (Suc (name_counter (heap s i))), op = Add, args = [x, y]\<rparr>] \<and>
      equations (heap (snd (mul x y s)) i)
        = equations (heap s i) @
          [\<lparr>var = vname (Suc (name_counter (heap s i))), op = Mul, args = [x, y]\<rparr>])"
proof -
  obtain s' where b: "build_jaxpr (call1 foo) 1 s = (Inr foo_jaxpr, s')"
    using build_jaxpr_foo [of s] by (cases "build_jaxpr (call1 foo) 1 s") simp
  have c: "current_interpreter s' = current_interpreter s"
    using build_jaxpr_foo_current [of s] b by simp
  have "length (parameters foo_jaxpr) = 1" "map op (jaxpr_equations foo_jaxpr) = [Add, Mul]"
    by (simp_all add: foo_jaxpr_def)
  moreover have "current_interpreter s = EvalInterpreter \<Longrightarrow>
      fst (bnd (build_jaxpr (call1 foo) 1) (\<lambda>j. eval_jaxpr j [VFloat 2]) s) = Inr (VFloat 10)"
    using b c eval_foo_jaxpr [of s'] by (simp add: bnd_def)
  moreover have "current_interpreter s = StagingInterpreter i \<Longrightarrow>
      equations (heap (snd (add x y s)) i)
        = equations (heap s i) @
          [\<lparr>var = vname (Suc (name_counter (heap s i))), op = Add, args = [x, y]\<rparr>]"
    unfolding add_def by (rule staging_appends)
  moreover have "current_interpreter s = StagingInterpreter i \<Longrightarrow>
      equations (heap (snd (mul x y s)) i)
        = equations (heap s i) @
          [\<lparr>var = vname (Suc (name_counter (heap s i))), op = Mul, args = [x, y]\<rparr>]"
    unfolding mul_def by (rule staging_appends)
  ultimately show ?thesis using b by simp
qed

theorem staging_fidelity_foo_witness:
  "current_interpreter initial_state = EvalInterpreter \<and>
   fst (bnd (build_jaxpr (call1 foo) 1) (\<lambda>j. eval_jaxpr j [VFloat 2]) initial_state)
     = Inr (VFloat 10) \<and>
   current_interpreter (initial_state\<lparr>current_interpreter := StagingInterpreter 0\<rparr>)
     = StagingInterpreter 0 \<and>
   equations (heap (snd (add (VStr ''v_1'') (VFloat 3)
       (initial_state\<lparr>current_interpreter := StagingInterpreter 0\<rparr>))) 0)
     = [\<lparr>var = ''v_1'', op = Add, args = [VStr ''v_1'', VFloat 3]\<rparr>]"
proof -
  have v: "vname (Suc 0) = ''v_1''" by (simp add: vname_def str_nat_digits)
  have h: "equations (heap initial_state 0) = []" "name_counter (heap initial_state 0) = 0"
    by (simp_all add: initial_state_def)
  show ?thesis
    using staging_fidelity_foo [of initial_state 0 "VStr ''v_1''" "VFloat 3"]
      staging_fidelity_foo [of "initial_state\<lparr>current_interpreter := StagingInterpreter 0\<rparr>" 0
        "VStr ''v_1''" "VFloat 3"]
      initial_state_current v h
    by simp
qed

lemma eval_equations_step:
  "eval_atoms env (args eqn) = Inr [x, y] \<Longrightarrow>
   eval_equations env (eqn # eqns) s =
     bnd (case op eqn of Add \<Rightarrow> add x y | Mul \<Rightarrow> mul x y)
       (\<lambda>v. eval_equations (env(var eqn \<mapsto> v)) eqns) s"
  by (cases "op eqn") (simp_all add: bnd_def from_result_def add_def mul_def)

text \<open>
  C6. Evaluating a staged equation whose two arguments have the values \<open>x\<close>
  and \<open>y\<close> is the call \<^verbatim>\<open>add(x, y)\<close> or \<^verbatim>\<open>mul(x, y)\<close>, dispatched to the
  interpreter that is current, followed by the remaining equations; so
  \<^verbatim>\<open>eval_jaxpr\<close> can itself be differentiated: \<^verbatim>\<open>jvp\<close> of the function that
  stages \<^verbatim>\<open>foo\<close> and evaluates the jaxpr on its argument, at primal 2.0 and
  tangent 1.0, returns (10.0, 7.0), as \<^verbatim>\<open>jvp\<close> of \<^verbatim>\<open>foo\<close> does.
\<close>

theorem jaxpr_evaluation_transformable:
  "(eval_atoms env (args eqn) = Inr [x, y] \<longrightarrow>
      eval_equations env (eqn # eqns) s =
        bnd (case op eqn of Add \<Rightarrow> add x y | Mul \<Rightarrow> mul x y)
          (\<lambda>v. eval_equations (env(var eqn \<mapsto> v)) eqns) s) \<and>
   (current_interpreter s = EvalInterpreter \<longrightarrow>
      fst (jvp (\<lambda>x. bnd (build_jaxpr (call1 foo) 1) (\<lambda>j. eval_jaxpr j [x]))
             (VFloat 2) (VFloat 1) s) = Inr (VFloat 10, VFloat 7) \<and>
      fst (jvp foo (VFloat 2) (VFloat 1) s) = Inr (VFloat 10, VFloat 7))"
proof -
  have "current_interpreter s = EvalInterpreter \<Longrightarrow>
      fst (jvp (\<lambda>x. bnd (build_jaxpr (call1 foo) 1) (\<lambda>j. eval_jaxpr j [x]))
             (VFloat 2) (VFloat 1) s) = Inr (VFloat 10, VFloat 7)"
    by (simp add: staging_simps run_simps str_nat_digits)
  moreover have "current_interpreter s = EvalInterpreter \<Longrightarrow>
      fst (jvp foo (VFloat 2) (VFloat 1) s) = Inr (VFloat 10, VFloat 7)"
    by (simp add: run_simps)
  ultimately show ?thesis using eval_equations_step [of env eqn x y eqns s] by blast
qed

theorem jaxpr_evaluation_transformable_witness:
  "eval_atoms [''v_1'' \<mapsto> VFloat 2] (args \<lparr>var = ''v_2'', op = Add, args = [VStr ''v_1'', VFloat 3]\<rparr>)
     = Inr [VFloat 2, VFloat 3] \<and>
   eval_equations [''v_1'' \<mapsto> VFloat 2]
       [\<lparr>var = ''v_2'', op = Add, args = [VStr ''v_1'', VFloat 3]\<rparr>] initial_state
     = bnd (add (VFloat 2) (VFloat 3))
         (\<lambda>v. eval_equations [''v_1'' \<mapsto> VFloat 2, ''v_2'' \<mapsto> v] []) initial_state \<and>
   current_interpreter initial_state = EvalInterpreter \<and>
   fst (jvp (\<lambda>x. bnd (build_jaxpr (call1 foo) 1) (\<lambda>j. eval_jaxpr j [x]))
          (VFloat 2) (VFloat 1) initial_state) = Inr (VFloat 10, VFloat 7)"
proof -
  have a: "eval_atoms [''v_1'' \<mapsto> VFloat 2]
      (args \<lparr>var = ''v_2'', op = Add, args = [VStr ''v_1'', VFloat 3]\<rparr>)
     = Inr [VFloat 2, VFloat 3]"
    by simp
  show ?thesis
    using a initial_state_current
      jaxpr_evaluation_transformable [of "[''v_1'' \<mapsto> VFloat 2]"
        "\<lparr>var = ''v_2'', op = Add, args = [VStr ''v_1'', VFloat 3]\<rparr>" "VFloat 2" "VFloat 3"
        "[]" initial_state]
    by simp
qed

section \<open>The JVP rules\<close>

lemma add_fun: "add x y = (\<lambda>s. interpret_op (current_interpreter s) Add [x, y] s)"
  by (rule ext) (simp add: add_def)

lemma mul_fun: "mul x y = (\<lambda>s. interpret_op (current_interpreter s) Mul [x, y] s)"
  by (rule ext) (simp add: mul_def)

lemma lift_owned: "lift self (VDual (TaggedDualNumber self p t)) = TaggedDualNumber self p t"
  by simp

lemma lift_constant:
  "(\<forall>d. v = VDual d \<longrightarrow> interpreter d \<noteq> self) \<Longrightarrow>
   lift self v = TaggedDualNumber self v (VFloat 0)"
  by (cases v) (simp_all add: dual_number_def)

lemma lift_interpreter: "interpreter (lift self v) = self"
  by (cases v) (simp_all add: dual_number_def)

lemma lift_again: "lift self (VDual (lift self v)) = lift self v"
  by (simp add: lift_interpreter)

lemma jvp_rule_add:
  "interpret_op (JVPInterpreter i prev) Add [x, y] s =
     set_interpreter prev
       (bnd (add (primal (lift (JVPInterpreter i prev) x)) (primal (lift (JVPInterpreter i prev) y)))
          (\<lambda>p.
        bnd (add (tangent (lift (JVPInterpreter i prev) x)) (tangent (lift (JVPInterpreter i prev) y)))
          (\<lambda>t.
        ret (VDual (TaggedDualNumber (JVPInterpreter i prev) p t))))) s"
  by (simp add: Let_def add_fun dual_number_def)

lemma jvp_rule_mul:
  "interpret_op (JVPInterpreter i prev) Mul [x, y] s =
     set_interpreter prev
       (bnd (mul (primal (lift (JVPInterpreter i prev) x)) (primal (lift (JVPInterpreter i prev) y)))
          (\<lambda>p.
        bnd (mul (primal (lift (JVPInterpreter i prev) x)) (tangent (lift (JVPInterpreter i prev) y)))
          (\<lambda>a.
        bnd (mul (tangent (lift (JVPInterpreter i prev) x)) (primal (lift (JVPInterpreter i prev) y)))
          (\<lambda>b.
        bnd (add a b)
          (\<lambda>t.
        ret (VDual (TaggedDualNumber (JVPInterpreter i prev) p t))))))) s"
  by (simp only: interpret_op.simps Let_def list.map list.case op.case lift_again
        add_fun mul_fun dual_number_def)

lemma jvp_rule_add_floats:
  assumes "lift (JVPInterpreter i EvalInterpreter) x =
             TaggedDualNumber (JVPInterpreter i EvalInterpreter)
               (VFloat (of_int px)) (VFloat (of_int tx))"
    and "lift (JVPInterpreter i EvalInterpreter) y =
             TaggedDualNumber (JVPInterpreter i EvalInterpreter)
               (VFloat (of_int py)) (VFloat (of_int ty))"
  shows "interpret_op (JVPInterpreter i EvalInterpreter) Add [x, y] s =
           (Inr (VDual (TaggedDualNumber (JVPInterpreter i EvalInterpreter)
                   (VFloat (of_int (px + py))) (VFloat (of_int (tx + ty))))), s)"
  unfolding jvp_rule_add assms by (simp add: run_simps)

lemma jvp_rule_mul_floats:
  assumes "lift (JVPInterpreter i EvalInterpreter) x =
             TaggedDualNumber (JVPInterpreter i EvalInterpreter)
               (VFloat (of_int px)) (VFloat (of_int tx))"
    and "lift (JVPInterpreter i EvalInterpreter) y =
             TaggedDualNumber (JVPInterpreter i EvalInterpreter)
               (VFloat (of_int py)) (VFloat (of_int ty))"
  shows "interpret_op (JVPInterpreter i EvalInterpreter) Mul [x, y] s =
           (Inr (VDual (TaggedDualNumber (JVPInterpreter i EvalInterpreter)
                   (VFloat (of_int (px * py))) (VFloat (of_int (px * ty + tx * py))))), s)"
  unfolding jvp_rule_mul assms by (simp add: run_simps)

text \<open>
  C4. Under a JVP interpreter \<open>self\<close> with previous interpreter \<open>prev\<close>:
  \<^verbatim>\<open>lift\<close> returns a dual number owned by \<open>self\<close> unchanged and wraps any other
  value with tangent 0; \<^verbatim>\<open>add\<close> on the lifted arguments returns the dual number
  of the sum of the primals and the sum of the tangents, \<^verbatim>\<open>mul\<close> the dual
  number of the product of the primals and of
  primal(x)*tangent(y) + tangent(x)*primal(y), each component computed by
  \<^verbatim>\<open>add\<close> and \<^verbatim>\<open>mul\<close> inside \<^verbatim>\<open>set_interpreter(prev)\<close>. When \<open>prev\<close> is the
  evaluating interpreter and the components are floats holding integers of
  magnitude at most \<open>2 ^ 26\<close>, so that every sum and product formed is an
  integer of magnitude at most \<open>2 ^ 53\<close> and float arithmetic is exact, the
  components of the results are the floats holding these sums and products.
\<close>

theorem jvp_primitive_rules:
  "(let self = JVPInterpreter i prev; lx = lift self x; ly = lift self y in
      lift self (VDual (TaggedDualNumber self p t)) = TaggedDualNumber self p t \<and>
      ((\<forall>d. v = VDual d \<longrightarrow> interpreter d \<noteq> self) \<longrightarrow>
         lift self v = TaggedDualNumber self v (VFloat 0)) \<and>
      interpret_op self Add [x, y] s =
        set_interpreter prev
          (bnd (add (primal lx) (primal ly)) (\<lambda>p.
           bnd (add (tangent lx) (tangent ly)) (\<lambda>t.
           ret (VDual (TaggedDualNumber self p t))))) s \<and>
      interpret_op self Mul [x, y] s =
        set_interpreter prev
          (bnd (mul (primal lx) (primal ly)) (\<lambda>p.
           bnd (mul (primal lx) (tangent ly)) (\<lambda>a.
           bnd (mul (tangent lx) (primal ly)) (\<lambda>b.
           bnd (add a b) (\<lambda>t.
           ret (VDual (TaggedDualNumber self p t))))))) s \<and>
      (prev = EvalInterpreter \<and>
       lx = TaggedDualNumber self (VFloat (of_int px)) (VFloat (of_int tx)) \<and>
       ly = TaggedDualNumber self (VFloat (of_int py)) (VFloat (of_int ty)) \<and>
       \<bar>px\<bar> \<le> 2 ^ 26 \<and> \<bar>tx\<bar> \<le> 2 ^ 26 \<and> \<bar>py\<bar> \<le> 2 ^ 26 \<and> \<bar>ty\<bar> \<le> 2 ^ 26 \<longrightarrow>
         interpret_op self Add [x, y] s =
           (Inr (VDual (TaggedDualNumber self (VFloat (of_int (px + py)))
                   (VFloat (of_int (tx + ty))))), s) \<and>
         interpret_op self Mul [x, y] s =
           (Inr (VDual (TaggedDualNumber self (VFloat (of_int (px * py)))
                   (VFloat (of_int (px * ty + tx * py))))), s)))"
  unfolding Let_def
proof (intro conjI impI)
  show "lift (JVPInterpreter i prev) (VDual (TaggedDualNumber (JVPInterpreter i prev) p t))
          = TaggedDualNumber (JVPInterpreter i prev) p t"
    by (rule lift_owned)
next
  assume "\<forall>d. v = VDual d \<longrightarrow> interpreter d \<noteq> JVPInterpreter i prev"
  then show "lift (JVPInterpreter i prev) v = TaggedDualNumber (JVPInterpreter i prev) v (VFloat 0)"
    by (rule lift_constant)
next
  assume h: "prev = EvalInterpreter \<and>
       lift (JVPInterpreter i prev) x =
         TaggedDualNumber (JVPInterpreter i prev) (VFloat (of_int px)) (VFloat (of_int tx)) \<and>
       lift (JVPInterpreter i prev) y =
         TaggedDualNumber (JVPInterpreter i prev) (VFloat (of_int py)) (VFloat (of_int ty)) \<and>
       \<bar>px\<bar> \<le> 2 ^ 26 \<and> \<bar>tx\<bar> \<le> 2 ^ 26 \<and> \<bar>py\<bar> \<le> 2 ^ 26 \<and> \<bar>ty\<bar> \<le> 2 ^ 26"
  then have p: "prev = EvalInterpreter" by blast
  from h have lx: "lift (JVPInterpreter i EvalInterpreter) x =
         TaggedDualNumber (JVPInterpreter i EvalInterpreter) (VFloat (of_int px))
           (VFloat (of_int tx))"
    and ly: "lift (JVPInterpreter i EvalInterpreter) y =
         TaggedDualNumber (JVPInterpreter i EvalInterpreter) (VFloat (of_int py))
           (VFloat (of_int ty))"
    unfolding p by blast+
  show "interpret_op (JVPInterpreter i prev) Add [x, y] s =
           (Inr (VDual (TaggedDualNumber (JVPInterpreter i prev) (VFloat (of_int (px + py)))
              (VFloat (of_int (tx + ty))))), s)"
    unfolding p using jvp_rule_add_floats [OF lx ly, of s] by (simp only: of_int_add)
  show "interpret_op (JVPInterpreter i prev) Mul [x, y] s =
           (Inr (VDual (TaggedDualNumber (JVPInterpreter i prev) (VFloat (of_int (px * py)))
              (VFloat (of_int (px * ty + tx * py))))), s)"
    unfolding p using jvp_rule_mul_floats [OF lx ly, of s]
    by (simp only: of_int_add of_int_mult)
qed (rule jvp_rule_add jvp_rule_mul)+

theorem jvp_primitive_rules_witness:
  "lift (JVPInterpreter 0 EvalInterpreter) (VFloat 3)
     = TaggedDualNumber (JVPInterpreter 0 EvalInterpreter) (VFloat 3) (VFloat 0) \<and>
   lift (JVPInterpreter 0 EvalInterpreter)
       (VDual (TaggedDualNumber (JVPInterpreter 0 EvalInterpreter) (VFloat 2) (VFloat 1)))
     = TaggedDualNumber (JVPInterpreter 0 EvalInterpreter) (VFloat 2) (VFloat 1) \<and>
   \<bar>2 :: int\<bar> \<le> 2 ^ 26 \<and> \<bar>1 :: int\<bar> \<le> 2 ^ 26 \<and> \<bar>3 :: int\<bar> \<le> 2 ^ 26 \<and>
   \<bar>0 :: int\<bar> \<le> 2 ^ 26 \<and>
   interpret_op (JVPInterpreter 0 EvalInterpreter) Add
       [VDual (TaggedDualNumber (JVPInterpreter 0 EvalInterpreter) (VFloat 2) (VFloat 1)),
        VFloat 3] initial_state
     = (Inr (VDual (TaggedDualNumber (JVPInterpreter 0 EvalInterpreter) (VFloat 5) (VFloat 1))),
        initial_state) \<and>
   interpret_op (JVPInterpreter 0 EvalInterpreter) Mul
       [VDual (TaggedDualNumber (JVPInterpreter 0 EvalInterpreter) (VFloat 2) (VFloat 1)),
        VFloat 3] initial_state
     = (Inr (VDual (TaggedDualNumber (JVPInterpreter 0 EvalInterpreter) (VFloat 6) (VFloat 3))),
        initial_state)"
proof -
  have l: "lift (JVPInterpreter 0 EvalInterpreter) (VFloat 3)
      = TaggedDualNumber (JVPInterpreter 0 EvalInterpreter) (VFloat 3) (VFloat 0)"
    "lift (JVPInterpreter 0 EvalInterpreter)
       (VDual (TaggedDualNumber (JVPInterpreter 0 EvalInterpreter) (VFloat 2) (VFloat 1)))
     = TaggedDualNumber (JVPInterpreter 0 EvalInterpreter) (VFloat 2) (VFloat 1)"
    by (simp_all add: dual_number_def)
  show ?thesis
    using jvp_primitive_rules [of 0 EvalInterpreter
        "VDual (TaggedDualNumber (JVPInterpreter 0 EvalInterpreter) (VFloat 2) (VFloat 1))"
        "VFloat 3" "VFloat 2" "VFloat 1" "VFloat 3" initial_state 2 1 3 0] l
    unfolding Let_def by simp
qed

section \<open>Printing a jaxpr\<close>

lemma strs_of_snoc_Some: "strs_of (xs @ [v]) = Some ys \<Longrightarrow> \<exists>x. v = VStr x"
proof (induction xs arbitrary: ys)
  case Nil
  then show ?case by (cases v) simp_all
next
  case (Cons a xs)
  then show ?case by (cases a) (auto split: option.splits)
qed

lemma join_snoc_Inr: "join sep (xs @ [v]) = Inr t \<Longrightarrow> \<exists>x. v = VStr x"
  by (auto simp: join_def split: option.splits dest: strs_of_snoc_Some)

lemma strs_of_lines:
  "strs_of (map (\<lambda>e. VStr (g e)) xs @ ys)
     = (case strs_of ys of None \<Rightarrow> None | Some zs \<Rightarrow> Some (map g xs @ zs))"
  by (induction xs) (simp_all split: option.splits)

lemma jaxpr_str_Inr: "jaxpr_str str j = Inr t \<Longrightarrow> \<exists>x. return_val j = VStr x"
  unfolding jaxpr_str_def Let_def by (rule join_snoc_Inr)

lemma jaxpr_str_float: "return_val j = VFloat r \<Longrightarrow> jaxpr_str str j = Inl TypeError"
  by (simp add: jaxpr_str_def Let_def join_def strs_of_lines)

lemma jaxpr_str_var: "return_val j = VStr x \<Longrightarrow> \<exists>t. jaxpr_str str j = Inr t"
  by (simp add: jaxpr_str_def Let_def join_def strs_of_lines)

lemma build_jaxpr_constant:
  "fst (build_jaxpr (\<lambda>_. ret (VFloat c)) 0 s)
     = Inr \<lparr>parameters = [], jaxpr_equations = [], return_val = VFloat c\<rparr>"
  by (simp add: staging_simps run_simps)

text \<open>
  C10. \<^verbatim>\<open>Jaxpr.__str__\<close> returns a string exactly when \<^verbatim>\<open>return_val\<close> is a
  string (a variable name); when it is a float the call raises \<^verbatim>\<open>TypeError\<close>.
  The jaxpr built from a function of no arguments that returns a float
  constant, without invoking a primitive, is such a jaxpr.
\<close>

theorem jaxpr_str_partial:
  "(jaxpr_str str j = Inr t \<longrightarrow> (\<exists>x. return_val j = VStr x)) \<and>
   (return_val j = VStr x \<longrightarrow> (\<exists>t. jaxpr_str str j = Inr t)) \<and>
   (return_val j = VFloat r \<longrightarrow> jaxpr_str str j = Inl TypeError) \<and>
   fst (bnd (build_jaxpr (\<lambda>_. ret (VFloat c)) 0) (\<lambda>j. from_result (jaxpr_str str j)) s)
     = Inl TypeError"
proof (intro conjI impI)
  obtain s' where b: "build_jaxpr (\<lambda>_. ret (VFloat c)) 0 s
      = (Inr \<lparr>parameters = [], jaxpr_equations = [], return_val = VFloat c\<rparr>, s')"
    using build_jaxpr_constant [of c s]
    by (cases "build_jaxpr (\<lambda>_. ret (VFloat c)) 0 s") simp
  have "jaxpr_str str \<lparr>parameters = [], jaxpr_equations = [], return_val = VFloat c\<rparr>
      = Inl TypeError"
    by (rule jaxpr_str_float) simp
  with b show "fst (bnd (build_jaxpr (\<lambda>_. ret (VFloat c)) 0)
      (\<lambda>j. from_result (jaxpr_str str j)) s) = Inl TypeError"
    by (simp add: bnd_def from_result_def)
qed (erule jaxpr_str_Inr jaxpr_str_var jaxpr_str_float)+

theorem jaxpr_str_partial_witness:
  "jaxpr_str (\<lambda>_. ''?'') foo_jaxpr
     = Inr (''v_1 ->'' @ [CHR 0x0A] @ ''  v_2 = Op.add(?, ?)'' @ [CHR 0x0A] @
            ''  v_3 = Op.mul(?, ?)'' @ [CHR 0x0A] @ ''v_3'') \<and>
   return_val foo_jaxpr = VStr ''v_3'' \<and>
   return_val (foo_jaxpr\<lparr>return_val := VFloat 1\<rparr>) = VFloat 1 \<and>
   jaxpr_str (\<lambda>_. ''?'') (foo_jaxpr\<lparr>return_val := VFloat 1\<rparr>) = Inl TypeError"
proof -
  have a: "jaxpr_str (\<lambda>_. ''?'') foo_jaxpr
     = Inr (''v_1 ->'' @ [CHR 0x0A] @ ''  v_2 = Op.add(?, ?)'' @ [CHR 0x0A] @
            ''  v_3 = Op.mul(?, ?)'' @ [CHR 0x0A] @ ''v_3'')"
    by (simp add: jaxpr_str_def foo_jaxpr_def join_def)
  have b: "return_val foo_jaxpr = VStr ''v_3''"
    by (simp add: foo_jaxpr_def)
  have c: "return_val (foo_jaxpr\<lparr>return_val := VFloat 1\<rparr>) = VFloat 1"
    by simp
  have "return_val (foo_jaxpr\<lparr>return_val := VFloat 1\<rparr>) = VFloat 1 \<longrightarrow>
      jaxpr_str (\<lambda>_. ''?'') (foo_jaxpr\<lparr>return_val := VFloat 1\<rparr>) = Inl TypeError"
    using jaxpr_str_partial [of "\<lambda>_. ''?''" "foo_jaxpr\<lparr>return_val := VFloat 1\<rparr>" "[]" "[]" 1 0
        initial_state]
    by (elim conjE)
  with a b c show ?thesis by blast
qed

section \<open>Variable names and scoping of a built jaxpr\<close>

lemma snd_bnd_preserved:
  assumes "P (snd (m s))"
    and "\<And>x t. m s = (Inr x, t) \<Longrightarrow> P t \<Longrightarrow> P (snd (k x t))"
  shows "P (snd (bnd m k s))"
  using assms by (cases "m s") (auto simp: bnd_def split: sum.splits)

lemma snd_set_interpreter_preserved:
  assumes "\<And>s I. P (s\<lparr>current_interpreter := I\<rparr>) = P s"
    and "P (snd (body (s\<lparr>current_interpreter := I\<rparr>)))"
  shows "P (snd (set_interpreter I body s))"
  using assms by (cases "body (s\<lparr>current_interpreter := I\<rparr>)") (simp add: set_interpreter_def)

lemma interpret_op_preserved:
  assumes cur: "\<And>s I. P (s\<lparr>current_interpreter := I\<rparr>) = P s"
    and stg: "\<And>k oper as s. P s \<Longrightarrow> P (snd (staging_interpret_op k oper as s))"
  shows "P s \<Longrightarrow> P (snd (interpret_op I oper as s))"
proof (induction I oper as s rule: interpret_op.induct)
  case (1 oper as s)
  then show ?case by simp
next
  case (2 k oper as s)
  then show ?case by (simp add: stg)
next
  case (3 k prev oper as s)
  have P0: "P (s\<lparr>current_interpreter := prev\<rparr>)"
    using "3.prems" by (simp add: cur)
  show ?case
  proof (cases oper)
    case Add
    show ?thesis
    proof (cases "\<exists>x y. map (lift (JVPInterpreter k prev)) as = [x, y]")
      case True
      then obtain x y where xy: "map (lift (JVPInterpreter k prev)) as = [x, y]" by auto
      show ?thesis
        unfolding interpret_op.simps Let_def Add xy
        apply (rule snd_set_interpreter_preserved [OF cur])
        apply (simp only: op.case list.case)
        apply (rule snd_bnd_preserved)
         apply (rule "3.IH"(1) [OF refl refl refl Add xy refl refl P0])
        apply (rule snd_bnd_preserved)
         apply (rule "3.IH"(2) [OF refl refl refl Add xy refl refl])
          apply assumption+
        apply (simp add: ret_def)
        done
    next
      case False
      then show ?thesis
        using "3.prems" 
        by (auto simp: Add Let_def raise_def set_interpreter_def cur split: list.splits)
    qed
  next
    case Mul
    show ?thesis
    proof (cases "\<exists>x y. map (lift (JVPInterpreter k prev)) as = [x, y]")
      case True
      then obtain x y where xy: "map (lift (JVPInterpreter k prev)) as = [x, y]" by auto
      show ?thesis
        unfolding interpret_op.simps Let_def Mul xy
        apply (rule snd_set_interpreter_preserved [OF cur])
        apply (simp only: op.case list.case)
        apply (rule snd_bnd_preserved)
         apply (rule "3.IH"(3) [OF refl refl refl Mul xy refl refl refl refl P0])
        apply (rule snd_bnd_preserved)
         apply (rule "3.IH"(4) [OF refl refl refl Mul xy refl refl refl refl])
          apply assumption+
        apply (rule snd_bnd_preserved)
         apply (rule "3.IH"(5) [OF refl refl refl Mul xy refl refl refl refl])
          apply assumption+
        apply (rule snd_bnd_preserved)
         apply (rule "3.IH"(6) [OF refl refl refl Mul xy refl refl refl refl])
          apply assumption+
        apply (simp add: ret_def)
        done
    next
      case False
      then show ?thesis
        using "3.prems" 
        by (auto simp: Mul Let_def raise_def set_interpreter_def cur split: list.splits)
    qed
  qed
qed

lemma digit_char_inj:
  assumes "a < 10" "b < 10" "digit_char a = digit_char b"
  shows "a = b"
proof -
  have d: "distinct ''0123456789''" by simp
  have l: "length ''0123456789'' = 10" by simp
  from assms show ?thesis
    unfolding digit_char_def using nth_eq_iff_index_eq [OF d, of a b] l by simp
qed

lemma str_nat_nonempty: "str_nat n \<noteq> []"
  by (subst str_nat.simps) simp

lemma str_nat_inj: "str_nat a = str_nat b \<Longrightarrow> a = b"
proof (induction a arbitrary: b rule: str_nat.induct)
  case (1 n)
  show ?case
  proof (cases "n < 10")
    case True
    then have n: "str_nat n = [digit_char n]" by (subst str_nat.simps) simp
    show ?thesis
    proof (cases "b < 10")
      case b: True
      then have "str_nat b = [digit_char b]" by (subst str_nat.simps) simp
      with n "1.prems" True b show ?thesis by (simp add: digit_char_inj)
    next
      case b: False
      then have "str_nat b = str_nat (b div 10) @ [digit_char (b mod 10)]"
        by (subst str_nat.simps) simp
      with n "1.prems" str_nat_nonempty [of "b div 10"] show ?thesis by simp
    qed
  next
    case False
    then have n: "str_nat n = str_nat (n div 10) @ [digit_char (n mod 10)]"
      by (subst str_nat.simps) simp
    show ?thesis
    proof (cases "b < 10")
      case b: True
      then have "str_nat b = [digit_char b]" by (subst str_nat.simps) simp
      with n "1.prems" str_nat_nonempty [of "n div 10"] show ?thesis by simp
    next
      case b: False
      then have "str_nat b = str_nat (b div 10) @ [digit_char (b mod 10)]"
        by (subst str_nat.simps) simp
      with n "1.prems" have e: "str_nat (n div 10) = str_nat (b div 10)"
        and d: "digit_char (n mod 10) = digit_char (b mod 10)" by simp_all
      from "1.IH" [OF False e] have "n div 10 = b div 10" .
      moreover from d have "n mod 10 = b mod 10" by (simp add: digit_char_inj)
      ultimately show ?thesis by (metis div_mult_mod_eq)
    qed
  qed
qed

lemma vname_inj: "inj vname"
  by (rule injI) (simp add: vname_def str_nat_inj)

lemma distinct_vnames: "distinct (map vname [a ..< b])"
  by (simp add: distinct_map vname_inj inj_on_subset [OF vname_inj])

lemma good_current: "good i m (s\<lparr>current_interpreter := I\<rparr>) = good i m s"
  by (simp add: good_def)

lemma fresh_var_snd:
  "snd (fresh_var k s) = s\<lparr>heap := (heap s)(k := (heap s k)\<lparr>name_counter := Suc (name_counter (heap s k))\<rparr>)\<rparr>"
  "fst (fresh_var k s) = vname (Suc (name_counter (heap s k)))"
  by (simp_all add: fresh_var_def Let_def vname_def)

lemma staging_good:
  "good i m s \<Longrightarrow> good i m (snd (staging_interpret_op k oper as s))"
  by (auto simp: good_def stg_inv_def staging_interpret_op_def fresh_var_def Let_def vname_def)

lemma interpret_op_good: "good i m s \<Longrightarrow> good i m (snd (interpret_op I oper as s))"
  by (rule interpret_op_preserved [where P = "good i m"]) (simp_all add: good_current staging_good)

lemma eval_equations_good:
  "good i m s \<Longrightarrow> good i m (snd (eval_equations env eqns s))"
proof (induction eqns arbitrary: env s)
  case Nil
  then show ?case by simp
next
  case (Cons eqn eqns)
  show ?case
    unfolding eval_equations.simps
    apply (rule snd_bnd_preserved)
     apply (simp add: from_result_def Cons.prems)
    apply (rule snd_bnd_preserved)
     apply (erule interpret_op_good)
    apply (erule Cons.IH)
    done
qed

lemma eval_jaxpr_good: "good i m s \<Longrightarrow> good i m (snd (eval_jaxpr j as s))"
  unfolding eval_jaxpr_def
  by (rule snd_bnd_preserved) (simp_all add: eval_equations_good from_result_def)

lemma jvp_good:
  assumes g: "\<And>d s. good i m s \<Longrightarrow> good i m (snd (g d s))"
  shows "good i m s \<Longrightarrow> good i m (snd (jvp g x y s))"
  unfolding jvp_def Let_def
  apply (rule snd_bnd_preserved)
   apply (rule snd_set_interpreter_preserved [where P = "good i m", OF good_current])
   apply (rule g)
   apply (simp add: good_def)
  apply (simp add: ret_def)
  done

lemma fresh_vars_Suc:
  "snd (fresh_vars k (Suc n) s) = snd (fresh_vars k n (snd (fresh_var k s)))"
  "fst (fresh_vars k (Suc n) s) = fst (fresh_var k s) # fst (fresh_vars k n (snd (fresh_var k s)))"
  by (simp_all add: split_beta)

lemma fresh_vars_other:
  "k \<noteq> i \<Longrightarrow> heap (snd (fresh_vars k n s)) i = heap s i \<and>
     next_id (snd (fresh_vars k n s)) = next_id s"
  by (induction n arbitrary: s) (simp_all add: fresh_vars_Suc fresh_var_snd del: fresh_vars.simps(2))

lemma build_jaxpr_good:
  assumes h: "\<And>xs s. good i m s \<Longrightarrow> good i m (snd (h xs s))"
  shows "good i m s \<Longrightarrow> good i m (snd (build_jaxpr h n s))"
proof -
  assume gs: "good i m s"
  let ?s1 = "s\<lparr>next_id := Suc (next_id s),
                 heap := (heap s)(next_id s := \<lparr>equations = [], name_counter = 0\<rparr>)\<rparr>"
  obtain ps s2 where f: "fresh_vars (next_id s) n ?s1 = (ps, s2)"
    by (cases "fresh_vars (next_id s) n ?s1")
  from gs have ne: "next_id s \<noteq> i" by (simp add: good_def)
  have "good i m s2"
    using fresh_vars_other [OF ne, of n ?s1] f gs ne by (simp add: good_def)
  then have "good i m (snd (bnd (set_interpreter (StagingInterpreter (next_id s)) (h (map VStr ps)))
           (\<lambda>result s3.
              (Inr \<lparr>parameters = ps, jaxpr_equations = equations (heap s3 (next_id s)),
                    return_val = result\<rparr>, s3)) s2))"
    apply -
    apply (rule snd_bnd_preserved)
     apply (rule snd_set_interpreter_preserved [where P = "good i m", OF good_current])
     apply (rule h)
     apply (simp add: good_current)
    apply simp
    done
  then show ?thesis
    by (simp add: build_jaxpr_def Let_def f)
qed

lemma api_good: "api c \<Longrightarrow> good i m s \<Longrightarrow> good i m (snd (c s))"
proof (induction arbitrary: s rule: api.induct)
  case (api_ret v)
  then show ?case by (simp add: ret_def)
next
  case (api_raise e)
  then show ?case by (simp add: raise_def)
next
  case (api_add x y)
  then show ?case by (simp add: add_def interpret_op_good)
next
  case (api_mul x y)
  then show ?case by (simp add: mul_def interpret_op_good)
next
  case (api_bnd m' k)
  show ?case
    by (rule snd_bnd_preserved) (simp_all add: api_bnd)
next
  case (api_jvp g k x y)
  show ?case
    apply (rule snd_bnd_preserved)
     apply (rule jvp_good)
      apply (erule api_jvp.IH(1))
     apply (rule api_jvp.prems)
    apply (simp add: api_jvp.IH(2) split: prod.splits)
    done
next
  case (api_eval_jaxpr j as)
  then show ?case by (simp add: eval_jaxpr_good)
next
  case (api_build_jaxpr h k' n)
  show ?case
    apply (rule snd_bnd_preserved)
     apply (rule build_jaxpr_good)
      apply (erule api_build_jaxpr.IH(1))
     apply (rule api_build_jaxpr.prems)
    apply (simp add: api_build_jaxpr.IH(2))
    done
qed

lemma fresh_vars_own:
  "fst (fresh_vars i n s) = map vname [Suc (name_counter (heap s i)) ..< Suc (name_counter (heap s i) + n)] \<and>
   snd (fresh_vars i n s) = s\<lparr>heap := (heap s)(i := (heap s i)\<lparr>name_counter := name_counter (heap s i) + n\<rparr>)\<rparr>"
proof (induction n arbitrary: s)
  case 0
  show ?case by simp
next
  case (Suc n)
  show ?case
    by (simp add: fresh_vars_Suc fresh_var_snd Suc upt_conv_Cons
          del: fresh_vars.simps(2) upt_Suc cong: if_cong)
qed

lemma build_jaxpr_unfold:
  "build_jaxpr f n s =
     (let i = next_id s; ps = map vname [1 ..< Suc n];
          s2 = s\<lparr>next_id := Suc i, heap := (heap s)(i := \<lparr>equations = [], name_counter = n\<rparr>)\<rparr>
      in bnd (set_interpreter (StagingInterpreter i) (f (map VStr ps)))
           (\<lambda>result s3.
              (Inr \<lparr>parameters = ps, jaxpr_equations = equations (heap s3 i),
                    return_val = result\<rparr>, s3)) s2)"
  by (simp add: build_jaxpr_def Let_def split_beta fresh_vars_own)

lemma build_jaxpr_vnames:
  assumes f: "\<And>xs. api (f xs)" and b: "build_jaxpr f n s = (Inr j, s')"
  shows "\<exists>c\<ge>n. parameters j = map vname [1 ..< Suc n] \<and>
           map var (jaxpr_equations j) = map vname [Suc n ..< Suc c]"
proof -
  let ?i = "next_id s"
  let ?ps = "map vname [1 ..< Suc n]"
  let ?s2 = "s\<lparr>next_id := Suc ?i, heap := (heap s)(?i := \<lparr>equations = [], name_counter = n\<rparr>)\<rparr>"
  obtain r s3 where run: "set_interpreter (StagingInterpreter ?i) (f (map VStr ?ps)) ?s2 = (r, s3)"
    by (cases "set_interpreter (StagingInterpreter ?i) (f (map VStr ?ps)) ?s2")
  have "good ?i n ?s2" by (simp add: good_def stg_inv_def)
  then have "good ?i n (snd (set_interpreter (StagingInterpreter ?i) (f (map VStr ?ps)) ?s2))"
    by (intro snd_set_interpreter_preserved [where P = "good ?i n", OF good_current]
          api_good [OF f]) (simp add: good_current)
  with run have g3: "good ?i n s3" by simp
  from b run obtain v where j: "j = \<lparr>parameters = ?ps, jaxpr_equations = equations (heap s3 ?i),
                    return_val = v\<rparr>"
    by (auto simp: build_jaxpr_unfold Let_def bnd_def split: sum.splits)
  from g3 show ?thesis
    unfolding j good_def stg_inv_def by auto
qed

lemma build_jaxpr_distinct:
  assumes "\<And>xs. api (f xs)" and "build_jaxpr f n s = (Inr j, s')"
  shows "distinct_names j"
proof -
  from build_jaxpr_vnames [OF assms] obtain c where c: "n \<le> c"
    "parameters j = map vname [1 ..< Suc n]"
    "map var (jaxpr_equations j) = map vname [Suc n ..< Suc c]" by blast
  have "[1 ..< Suc n] @ [Suc n ..< Suc c] = [1 ..< Suc c]"
    using c(1) by (metis Suc_le_mono le_add1 plus_1_eq_Suc upt_add_eq_append le_iff_add)
  then have "parameters j @ map var (jaxpr_equations j) = map vname [1 ..< Suc c]"
    unfolding c(2,3) by (metis map_append)
  then show ?thesis
    unfolding distinct_names_def by (simp only: distinct_vnames)
qed

lemma interpret_op_current:
  "current_interpreter (snd (interpret_op I oper as s)) = current_interpreter s"
proof (cases I)
  case EvalInterpreter
  then show ?thesis by simp
next
  case (StagingInterpreter i)
  then show ?thesis by (simp add: staging_interpret_op_current)
next
  case (JVPInterpreter i prev)
  then show ?thesis
    by (simp only: interpret_op.simps Let_def set_interpreter_current)
qed

lemma value_at_float: "value_at N I (VFloat r)"
  by (induction I) simp_all

lemma atom_in_mono: "N \<subseteq> N' \<Longrightarrow> atom_in N v \<Longrightarrow> atom_in N' v"
  by (cases v) auto

lemma value_at_mono: "N \<subseteq> N' \<Longrightarrow> value_at N I v \<Longrightarrow> value_at N' I v"
  by (induction I arbitrary: v) (auto simp: atom_in_mono split: val.splits)

lemma value_at_up: "value_at N prev v \<Longrightarrow> value_at N (JVPInterpreter k prev) v"
  by simp

lemma value_at_dual_size: "value_at N I (VDual d) \<Longrightarrow> size (interpreter d) \<le> size I"
  by (induction I) auto

lemma value_at_lift:
  assumes "value_at N (JVPInterpreter k prev) v"
  shows "value_at N prev (primal (lift (JVPInterpreter k prev) v)) \<and>
         value_at N prev (tangent (lift (JVPInterpreter k prev) v))"
proof (cases "\<exists>d. v = VDual d \<and> interpreter d = JVPInterpreter k prev")
  case True
  then obtain d where d: "v = VDual d" "interpreter d = JVPInterpreter k prev" by blast
  have "\<not> value_at N prev (VDual d)"
    using value_at_dual_size [of N prev d] d(2) by auto
  with assms d show ?thesis by simp
next
  case False
  then have l: "lift (JVPInterpreter k prev) v = TaggedDualNumber (JVPInterpreter k prev) v (VFloat 0)"
    by (cases v) (auto simp: dual_number_def)
  from False assms have "value_at N prev v" by (auto split: val.splits)
  with l show ?thesis by (simp add: value_at_float)
qed


lemma extends_refl: "closed_state i ps s \<Longrightarrow> extends i ps s s"
  by (simp add: extends_def)

lemma extends_trans: "extends i ps s s1 \<Longrightarrow> extends i ps s1 s2 \<Longrightarrow> extends i ps s s2"
  unfolding extends_def by (metis (no_types, lifting) dual_order.trans less_le_trans)

lemma extends_closed: "extends i ps s s' \<Longrightarrow> closed_state i ps s'"
  by (simp add: extends_def)

lemma extends_current: "extends i ps s s' \<Longrightarrow> current_interpreter s' = current_interpreter s"
  by (simp add: extends_def)

lemma extends_scope:
  "extends i ps (s\<lparr>current_interpreter := J\<rparr>) t \<Longrightarrow>
   extends i ps s (t\<lparr>current_interpreter := current_interpreter s\<rparr>)"
  by (simp add: extends_def closed_state_def known_def)

lemma closed_state_current:
  "closed_state i ps (s\<lparr>current_interpreter := J\<rparr>) = closed_state i ps s"
  by (simp add: closed_state_def)

lemma known_current: "known i ps (s\<lparr>current_interpreter := J\<rparr>) = known i ps s"
  by (simp add: known_def)

lemma extends_value:
  "extends i ps s s' \<Longrightarrow> value_at (set (known i ps s)) I v \<Longrightarrow>
   value_at (set (known i ps s')) I v"
  unfolding extends_def by (blast intro: value_at_mono)

lemma closed_eqns_snoc:
  "closed_eqns bound (es @ [e]) =
     (closed_eqns bound es \<and> length (args e) = 2 \<and>
      list_all (atom_in (set (bound @ map var es))) (args e))"
  by (induction es arbitrary: bound) auto

lemma staging_dispatch:
  assumes "closed_state i ps s" "atom_in (set (known i ps s)) a" "atom_in (set (known i ps s)) b"
  shows "\<exists>v s'. interpret_op (StagingInterpreter i) oper [a, b] s = (Inr v, s') \<and>
           extends i ps s s' \<and> atom_in (set (known i ps s')) v"
  using assms
  by (auto simp: closed_state_def known_def extends_def staging_interpret_op_def fresh_var_def
        Let_def closed_eqns_snoc)

lemma dispatch_ok:
  assumes "root I = Some i" "closed_state i ps s"
    "value_at (set (known i ps s)) I a" "value_at (set (known i ps s)) I b"
  shows "\<exists>v s'. interpret_op I oper [a, b] s = (Inr v, s') \<and>
           extends i ps s s' \<and> value_at (set (known i ps s')) I v"
  using assms
proof (induction I arbitrary: s a b oper)
  case EvalInterpreter
  then show ?case by simp
next
  case (StagingInterpreter k)
  then have "k = i" by simp
  with StagingInterpreter staging_dispatch [of i ps s a b oper] show ?case by simp
next
  case (JVPInterpreter k prev)
  let ?J = "JVPInterpreter k prev"
  let ?t = "s\<lparr>current_interpreter := prev\<rparr>"
  let ?la = "lift ?J a" and ?lb = "lift ?J b"
  have r: "root prev = Some i" using JVPInterpreter.prems(1) by simp
  have ct: "closed_state i ps ?t" using JVPInterpreter.prems(2) by (simp add: closed_state_current)
  have va: "value_at (set (known i ps ?t)) prev (primal ?la)"
           "value_at (set (known i ps ?t)) prev (tangent ?la)"
    using value_at_lift [OF JVPInterpreter.prems(3)] by (simp_all add: known_current)
  have vb: "value_at (set (known i ps ?t)) prev (primal ?lb)"
           "value_at (set (known i ps ?t)) prev (tangent ?lb)"
    using value_at_lift [OF JVPInterpreter.prems(4)] by (simp_all add: known_current)
  show ?case
  proof (cases oper)
    case Add
    from JVPInterpreter.IH [OF r ct va(1) vb(1), of Add] obtain p t1 where
      1: "interpret_op prev Add [primal ?la, primal ?lb] ?t = (Inr p, t1)"
         "extends i ps ?t t1" "value_at (set (known i ps t1)) prev p" by blast
    from JVPInterpreter.IH [OF r extends_closed [OF 1(2)]
        extends_value [OF 1(2) va(2)] extends_value [OF 1(2) vb(2)], of Add] obtain q t2 where
      2: "interpret_op prev Add [tangent ?la, tangent ?lb] t1 = (Inr q, t2)"
         "extends i ps t1 t2" "value_at (set (known i ps t2)) prev q" by blast
    have c1: "current_interpreter t1 = prev" using extends_current [OF 1(2)] by simp
    have e: "extends i ps ?t t2" using 1(2) 2(2) by (rule extends_trans)
    have "interpret_op ?J oper [a, b] s =
        (Inr (VDual (TaggedDualNumber ?J p q)), t2\<lparr>current_interpreter := current_interpreter s\<rparr>)"
      using 1(1) 2(1) c1
      by (simp add: Add Let_def set_interpreter_def bnd_def ret_def dual_number_def)
    moreover have "extends i ps s (t2\<lparr>current_interpreter := current_interpreter s\<rparr>)"
      using e by (rule extends_scope)
    moreover have "value_at (set (known i ps (t2\<lparr>current_interpreter := current_interpreter s\<rparr>))) ?J
        (VDual (TaggedDualNumber ?J p q))"
      using extends_value [OF 2(2) 1(3)] 2(3) by (simp add: known_current)
    ultimately show ?thesis by blast
  next
    case Mul
    from JVPInterpreter.IH [OF r ct va(1) vb(1), of Mul] obtain p t1 where
      1: "interpret_op prev Mul [primal ?la, primal ?lb] ?t = (Inr p, t1)"
         "extends i ps ?t t1" "value_at (set (known i ps t1)) prev p" by blast
    from JVPInterpreter.IH [OF r extends_closed [OF 1(2)]
        extends_value [OF 1(2) va(1)] extends_value [OF 1(2) vb(2)], of Mul] obtain u t2 where
      2: "interpret_op prev Mul [primal ?la, tangent ?lb] t1 = (Inr u, t2)"
         "extends i ps t1 t2" "value_at (set (known i ps t2)) prev u" by blast
    have e2: "extends i ps ?t t2" using 1(2) 2(2) by (rule extends_trans)
    from JVPInterpreter.IH [OF r extends_closed [OF 2(2)]
        extends_value [OF e2 va(2)] extends_value [OF e2 vb(1)], of Mul] obtain w t3 where
      3: "interpret_op prev Mul [tangent ?la, primal ?lb] t2 = (Inr w, t3)"
         "extends i ps t2 t3" "value_at (set (known i ps t3)) prev w" by blast
    from JVPInterpreter.IH [OF r extends_closed [OF 3(2)]
        extends_value [OF 3(2) 2(3)] 3(3), of Add] obtain q t4 where
      4: "interpret_op prev Add [u, w] t3 = (Inr q, t4)"
         "extends i ps t3 t4" "value_at (set (known i ps t4)) prev q" by blast
    have c: "current_interpreter t1 = prev" "current_interpreter t2 = prev"
      "current_interpreter t3 = prev"
      using extends_current [OF 1(2)] extends_current [OF 2(2)] extends_current [OF 3(2)]
      by simp_all
    have e3: "extends i ps t1 t4"
      using 2(2) 3(2) 4(2) by (blast intro: extends_trans)
    have e: "extends i ps ?t t4" using 1(2) e3 by (rule extends_trans)
    have "interpret_op ?J oper [a, b] s =
        (Inr (VDual (TaggedDualNumber ?J p q)), t4\<lparr>current_interpreter := current_interpreter s\<rparr>)"
      using 1(1) 2(1) 3(1) 4(1) c
      by (simp add: Mul Let_def set_interpreter_def bnd_def ret_def dual_number_def
            lift_interpreter)
    moreover have "extends i ps s (t4\<lparr>current_interpreter := current_interpreter s\<rparr>)"
      using e by (rule extends_scope)
    moreover have "value_at (set (known i ps (t4\<lparr>current_interpreter := current_interpreter s\<rparr>))) ?J
        (VDual (TaggedDualNumber ?J p q))"
      using extends_value [OF e3 1(3)] 4(3) by (simp add: known_current)
    ultimately show ?thesis by blast
  qed
qed

lemma uses_api: "uses V c \<Longrightarrow> api c"
  by (induction rule: uses.induct) (auto intro: api.intros)

lemma is_float_value_at: "is_float v \<Longrightarrow> value_at N I v"
  by (cases v) (simp_all add: value_at_float)

lemma in_hand_value_at:
  "in_hand V v \<Longrightarrow> \<forall>v\<in>V. value_at N I v \<Longrightarrow> value_at N I v"
  by (auto simp: in_hand_def is_float_value_at)

lemma closed_eqns_atoms:
  "closed_eqns bound eqns \<Longrightarrow> e \<in> set eqns \<Longrightarrow>
   length (args e) = 2 \<and> list_all (atom_in UNIV) (args e)"
  by (induction eqns arbitrary: bound) (auto simp: list_all_iff intro: atom_in_mono [OF subset_UNIV])

lemma eval_atom_ok:
  assumes "atom_in UNIV a" "\<forall>x v. env x = Some v \<longrightarrow> value_at N I v"
  shows "eval_atom env a = Inl KeyError \<or> (\<exists>v. eval_atom env a = Inr v \<and> value_at N I v)"
  using assms by (cases a) (auto simp: value_at_float split: option.splits)

lemma eval_atoms_ok:
  assumes "list_all (atom_in UNIV) as" "length as = 2"
    "\<forall>x v. env x = Some v \<longrightarrow> value_at N I v"
  shows "eval_atoms env as = Inl KeyError \<or>
         (\<exists>a b. eval_atoms env as = Inr [a, b] \<and> value_at N I a \<and> value_at N I b)"
proof -
  from assms(2) obtain x y where as: "as = [x, y]"
    by (cases as; cases "tl as") auto
  with assms(1) have "atom_in UNIV x" "atom_in UNIV y" by simp_all
  from eval_atom_ok [OF this(1) assms(3)] eval_atom_ok [OF this(2) assms(3)]
  show ?thesis unfolding as by auto
qed

lemma eval_equations_ok:
  assumes "\<forall>e\<in>set eqns. length (args e) = 2 \<and> list_all (atom_in UNIV) (args e)"
    "root (current_interpreter s) = Some i" "closed_state i ps s"
    "\<forall>x v. env x = Some v \<longrightarrow> value_at (set (known i ps s)) (current_interpreter s) v"
  shows "\<exists>r s'. eval_equations env eqns s = (r, s') \<and> extends i ps s s' \<and>
           (\<forall>env'. r = Inr env' \<longrightarrow>
              (\<forall>x v. env' x = Some v \<longrightarrow>
                 value_at (set (known i ps s')) (current_interpreter s) v))"
  using assms
proof (induction eqns arbitrary: env s)
  case Nil
  then show ?case by (simp add: extends_refl)
next
  case (Cons eqn eqns)
  let ?I = "current_interpreter s"
  have a: "length (args eqn) = 2" "list_all (atom_in UNIV) (args eqn)"
    using Cons.prems(1) by simp_all
  from eval_atoms_ok [OF a(2) a(1) Cons.prems(4)]
  show ?case
  proof
    assume "eval_atoms env (args eqn) = Inl KeyError"
    then show ?thesis
      using Cons.prems(3) by (simp add: bnd_def from_result_def extends_refl)
  next
    assume "\<exists>a b. eval_atoms env (args eqn) = Inr [a, b] \<and>
      value_at (set (known i ps s)) ?I a \<and> value_at (set (known i ps s)) ?I b"
    then obtain x y where xy: "eval_atoms env (args eqn) = Inr [x, y]"
      "value_at (set (known i ps s)) ?I x" "value_at (set (known i ps s)) ?I y" by blast
    from dispatch_ok [OF Cons.prems(2,3) xy(2,3), of "op eqn"] obtain v s1 where
      d: "interpret_op ?I (op eqn) [x, y] s = (Inr v, s1)" "extends i ps s s1"
         "value_at (set (known i ps s1)) ?I v" by blast
    have c1: "current_interpreter s1 = ?I" using d(2) by (rule extends_current)
    have env1: "\<forall>z w. (env(var eqn \<mapsto> v)) z = Some w \<longrightarrow>
        value_at (set (known i ps s1)) (current_interpreter s1) w"
      using Cons.prems(4) d(3) c1 extends_value [OF d(2)] by auto
    have "\<forall>e\<in>set eqns. length (args e) = 2 \<and> list_all (atom_in UNIV) (args e)"
      using Cons.prems(1) by simp
    moreover have "root (current_interpreter s1) = Some i"
      using Cons.prems(2) c1 by simp
    ultimately obtain r s2 where
      r: "eval_equations (env(var eqn \<mapsto> v)) eqns s1 = (r, s2)" "extends i ps s1 s2"
         "\<forall>env'. r = Inr env' \<longrightarrow> (\<forall>x v. env' x = Some v \<longrightarrow>
              value_at (set (known i ps s2)) (current_interpreter s1) v)"
      using Cons.IH [OF _ _ extends_closed [OF d(2)] env1] by blast
    have "eval_equations env (eqn # eqns) s = (r, s2)"
      using xy(1) d(1) r(1) by (simp add: bnd_def from_result_def)
    moreover have "extends i ps s s2" using d(2) r(2) by (rule extends_trans)
    ultimately show ?thesis using r(3) unfolding c1 by blast
  qed
qed

lemma fold_update_ok:
  assumes "\<forall>x v. env x = Some v \<longrightarrow> P v" "list_all (\<lambda>kv. P (snd kv)) kvs"
  shows "\<forall>x v. fold (\<lambda>(k, v) env. env(k \<mapsto> v)) kvs env x = Some v \<longrightarrow> P v"
  using assms
proof (induction kvs arbitrary: env)
  case Nil
  then show ?case by simp
next
  case (Cons kv kvs)
  obtain k w where kv: "kv = (k, w)" by (cases kv)
  have "\<forall>x v. (env(k \<mapsto> w)) x = Some v \<longrightarrow> P v"
    using Cons.prems kv by simp
  moreover have "list_all (\<lambda>kv. P (snd kv)) kvs" using Cons.prems(2) by simp
  ultimately have "\<forall>x v. fold (\<lambda>(k, v) env. env(k \<mapsto> v)) kvs (env(k \<mapsto> w)) x = Some v \<longrightarrow> P v"
    by (rule Cons.IH)
  then show ?case by (simp only: kv fold_simps o_apply prod.case)
qed

lemma dict_zip_ok:
  assumes "list_all P as"
  shows "\<forall>x v. dict_zip ks as x = Some v \<longrightarrow> P v"
proof -
  have "list_all (\<lambda>kv. P (snd kv)) (zip ks as)"
    using assms by (auto simp: list_all_iff dest: set_zip_rightD)
  then show ?thesis
    unfolding dict_zip_def by (intro fold_update_ok) simp_all
qed

lemma eval_jaxpr_ok:
  assumes "closed_jaxpr j" "root (current_interpreter s) = Some i" "closed_state i ps s"
    "list_all (value_at (set (known i ps s)) (current_interpreter s)) as"
  shows "\<exists>r s'. eval_jaxpr j as s = (r, s') \<and> extends i ps s s' \<and>
           (\<forall>v. r = Inr v \<longrightarrow> value_at (set (known i ps s')) (current_interpreter s) v)"
proof -
  have eq: "\<forall>e\<in>set (jaxpr_equations j). length (args e) = 2 \<and> list_all (atom_in UNIV) (args e)"
    using assms(1) closed_eqns_atoms unfolding closed_jaxpr_def by blast
  have rv: "atom_in UNIV (return_val j)"
    using assms(1) unfolding closed_jaxpr_def by (blast intro: atom_in_mono [OF subset_UNIV])
  from eval_equations_ok [OF eq assms(2,3) dict_zip_ok [OF assms(4)]] obtain r s1 where
    r: "eval_equations (dict_zip (parameters j) as) (jaxpr_equations j) s = (r, s1)"
       "extends i ps s s1"
       "\<forall>env'. r = Inr env' \<longrightarrow> (\<forall>x v. env' x = Some v \<longrightarrow>
              value_at (set (known i ps s1)) (current_interpreter s) v)" by blast
  show ?thesis
  proof (cases r)
    case (Inl e)
    with r show ?thesis by (simp add: eval_jaxpr_def bnd_def)
  next
    case (Inr env')
    with r(3) have "\<forall>x v. env' x = Some v \<longrightarrow>
        value_at (set (known i ps s1)) (current_interpreter s) v" by simp
    from eval_atom_ok [OF rv this] Inr r(1,2) show ?thesis
      by (auto simp: eval_jaxpr_def bnd_def from_result_def)
  qed
qed


lemma extends_alloc:
  "closed_state i ps s \<Longrightarrow> extends i ps s (s\<lparr>next_id := Suc (next_id s)\<rparr>)"
  by (simp add: extends_def closed_state_def known_def)

lemma uses_ok:
  assumes "uses V c"
    and "root (current_interpreter s) = Some i" "i < next_id s" "closed_state i ps s"
    and "\<forall>v\<in>V. value_at (set (known i ps s)) (current_interpreter s) v"
  shows "\<exists>r s'. c s = (r, s') \<and> extends i ps s s' \<and>
           (\<forall>v. r = Inr v \<longrightarrow> value_at (set (known i ps s')) (current_interpreter s) v)"
  using assms
proof (induction arbitrary: i ps s rule: uses.induct)
  case (uses_ret V v)
  then show ?case
    by (auto simp: ret_def extends_refl intro: in_hand_value_at)
next
  case (uses_raise V e)
  then show ?case by (simp add: raise_def extends_refl)
next
  case (uses_add V x y)
  have "value_at (set (known i ps s)) (current_interpreter s) x"
    "value_at (set (known i ps s)) (current_interpreter s) y"
    using uses_add by (blast intro: in_hand_value_at)+
  from dispatch_ok [OF uses_add.prems(1,3) this, of Add] show ?case
    by (auto simp: add_def)
next
  case (uses_mul V x y)
  have "value_at (set (known i ps s)) (current_interpreter s) x"
    "value_at (set (known i ps s)) (current_interpreter s) y"
    using uses_mul by (blast intro: in_hand_value_at)+
  from dispatch_ok [OF uses_mul.prems(1,3) this, of Mul] show ?case
    by (auto simp: mul_def)
next
  case (uses_bnd V m k)
  from uses_bnd.IH(1) [OF uses_bnd.prems] obtain r s1 where
    m: "m s = (r, s1)" "extends i ps s s1"
       "\<forall>v. r = Inr v \<longrightarrow> value_at (set (known i ps s1)) (current_interpreter s) v" by blast
  show ?case
  proof (cases r)
    case (Inl e)
    with m show ?thesis by (simp add: bnd_def)
  next
    case (Inr x)
    have c1: "current_interpreter s1 = current_interpreter s"
      using m(2) by (rule extends_current)
    have n1: "i < next_id s1" using m(2) uses_bnd.prems(2) by (simp add: extends_def)
    have v1: "\<forall>v\<in>insert x V. value_at (set (known i ps s1)) (current_interpreter s1) v"
      using m(3) Inr uses_bnd.prems(4) extends_value [OF m(2)] c1 by auto
    have r1: "root (current_interpreter s1) = Some i" using uses_bnd.prems(1) c1 by simp
    from uses_bnd.IH(2) [OF r1 n1 extends_closed [OF m(2)] v1]
    obtain r2 s2 where
      k: "k x s1 = (r2, s2)" "extends i ps s1 s2"
         "\<forall>v. r2 = Inr v \<longrightarrow> value_at (set (known i ps s2)) (current_interpreter s1) v"
      by auto
    have "bnd m k s = (r2, s2)" using m(1) Inr k(1) by (simp add: bnd_def)
    moreover have "extends i ps s s2" using m(2) k(2) by (rule extends_trans)
    ultimately show ?thesis using k(3) c1 by auto
  qed
next
  case (uses_jvp V g p t k)
  let ?I = "current_interpreter s"
  let ?J = "JVPInterpreter (next_id s) ?I"
  let ?d = "VDual (TaggedDualNumber ?J p t)"
  let ?s1 = "s\<lparr>next_id := Suc (next_id s)\<rparr>"
  let ?t0 = "?s1\<lparr>current_interpreter := ?J\<rparr>"
  have vp: "value_at (set (known i ps s)) ?I p" "value_at (set (known i ps s)) ?I t"
    using uses_jvp.hyps(2,3) uses_jvp.prems(4) by (blast intro: in_hand_value_at)+
  have k0: "known i ps ?t0 = known i ps s" by (simp add: known_def)
  have a4: "\<forall>v\<in>insert ?d V. value_at (set (known i ps ?t0)) (current_interpreter ?t0) v"
    using vp uses_jvp.prems(4) by (simp add: k0)
  have a1: "root (current_interpreter ?t0) = Some i" using uses_jvp.prems(1) by simp
  have a2: "i < next_id ?t0" using uses_jvp.prems(2) by simp
  have a3: "closed_state i ps ?t0" using uses_jvp.prems(3) by (simp add: closed_state_def)
  obtain r t1 where
    g: "g ?d ?t0 = (r, t1)" "extends i ps ?t0 t1"
       "\<forall>v. r = Inr v \<longrightarrow> value_at (set (known i ps t1)) (current_interpreter ?t0) v"
    using uses_jvp.IH(1) [OF a1 a2 a3 a4] by blast
  let ?t2 = "t1\<lparr>current_interpreter := ?I\<rparr>"
  have e1: "extends i ps s ?s1" using uses_jvp.prems(3) by (rule extends_alloc)
  have "extends i ps ?s1 (t1\<lparr>current_interpreter := current_interpreter ?s1\<rparr>)"
    using g(2) by (rule extends_scope)
  then have e2: "extends i ps ?s1 ?t2" by simp
  have e: "extends i ps s ?t2" using e1 e2 by (rule extends_trans)
  have k2: "known i ps ?t2 = known i ps t1" by (simp add: known_def)
  show ?case
  proof (cases r)
    case (Inl err)
    then have "bnd (jvp g p t) (\<lambda>(a, b). k a b) s = (Inl err, ?t2)"
      using g(1)
      by (simp add: jvp_def Let_def bnd_def set_interpreter_def dual_number_def)
    with e show ?thesis by simp
  next
    case (Inr res)
    let ?a = "primal (lift ?J res)" and ?b = "tangent (lift ?J res)"
    have "value_at (set (known i ps t1)) ?J res" using g(3) Inr by simp
    from value_at_lift [OF this] have ab:
      "value_at (set (known i ps ?t2)) ?I ?a" "value_at (set (known i ps ?t2)) ?I ?b"
      by (simp_all add: k2)
    have j: "jvp g p t s = (Inr (?a, ?b), ?t2)"
      using g(1) Inr
      by (simp add: jvp_def Let_def bnd_def set_interpreter_def dual_number_def ret_def)
    have c2: "current_interpreter ?t2 = ?I" by simp
    have b4: "\<forall>v\<in>insert ?a (insert ?b V). value_at (set (known i ps ?t2)) (current_interpreter ?t2) v"
      using ab uses_jvp.prems(4) extends_value [OF e] by auto
    have b1: "root (current_interpreter ?t2) = Some i" using uses_jvp.prems(1) by simp
    have b2: "i < next_id ?t2" using e uses_jvp.prems(2) by (simp add: extends_def)
    obtain r2 s2 where
      k: "k ?a ?b ?t2 = (r2, s2)" "extends i ps ?t2 s2"
         "\<forall>v. r2 = Inr v \<longrightarrow> value_at (set (known i ps s2)) (current_interpreter ?t2) v"
      using uses_jvp.IH(2) [OF b1 b2 extends_closed [OF e] b4] by blast
    have "bnd (jvp g p t) (\<lambda>(a, b). k a b) s = (r2, s2)"
      using j k(1) by (simp add: bnd_def)
    moreover have "extends i ps s s2" using e k(2) by (rule extends_trans)
    ultimately show ?thesis using k(3) by simp
  qed
next
  case (uses_eval_jaxpr j V as)
  have "list_all (value_at (set (known i ps s)) (current_interpreter s)) as"
    using uses_eval_jaxpr.hyps(2) uses_eval_jaxpr.prems(4)
    by (auto simp: list_all_iff intro: in_hand_value_at)
  from eval_jaxpr_ok [OF uses_eval_jaxpr.hyps(1) uses_eval_jaxpr.prems(1,3) this]
  show ?case .
next
  case (uses_build_jaxpr h V k' n)
  let ?I = "current_interpreter s"
  let ?j = "next_id s"
  let ?qs = "map vname [1 ..< Suc n]"
  let ?s2 = "s\<lparr>next_id := Suc ?j, heap := (heap s)(?j := \<lparr>equations = [], name_counter = n\<rparr>)\<rparr>"
  let ?t0 = "?s2\<lparr>current_interpreter := StagingInterpreter ?j\<rparr>"
  have ne: "i \<noteq> ?j" using uses_build_jaxpr.prems(2) by simp
  have a4: "\<forall>v\<in>set (map VStr ?qs). value_at (set (known ?j ?qs ?t0)) (current_interpreter ?t0) v"
    by (auto simp: known_def)
  have a1: "root (current_interpreter ?t0) = Some ?j" by simp
  have a2: "?j < next_id ?t0" by simp
  have a3: "closed_state ?j ?qs ?t0" by (simp add: closed_state_def)
  obtain r t1 where
    h: "h (map VStr ?qs) ?t0 = (r, t1)" "extends ?j ?qs ?t0 t1"
       "\<forall>v. r = Inr v \<longrightarrow> value_at (set (known ?j ?qs t1)) (current_interpreter ?t0) v"
    using uses_build_jaxpr.IH(1) [OF a1 a2 a3 a4] by blast
  let ?t2 = "t1\<lparr>current_interpreter := ?I\<rparr>"
  have fr: "\<forall>i'. i' \<noteq> ?j \<longrightarrow> i' < Suc ?j \<longrightarrow> heap t1 i' = heap ?t0 i'"
    using h(2) by (simp add: extends_def)
  have hi: "heap t1 i = heap s i"
    using fr ne uses_build_jaxpr.prems(2) by simp
  have nx: "next_id s \<le> next_id t1" using h(2) by (simp add: extends_def)
  have e: "extends i ps s ?t2"
    unfolding extends_def
    using uses_build_jaxpr.prems(3) hi nx fr
    by (auto simp: closed_state_def known_def)
  show ?case
  proof (cases r)
    case (Inl err)
    then have "bnd (build_jaxpr h n) k' s = (Inl err, ?t2)"
      using h(1) by (simp add: build_jaxpr_unfold Let_def bnd_def set_interpreter_def)
    with e show ?thesis by simp
  next
    case (Inr res)
    let ?jx = "\<lparr>parameters = ?qs, jaxpr_equations = equations (heap t1 ?j), return_val = res\<rparr>"
    have b: "build_jaxpr h n s = (Inr ?jx, ?t2)"
      using h(1) Inr by (simp add: build_jaxpr_unfold Let_def bnd_def set_interpreter_def)
    have "closed_jaxpr ?jx"
      using h(2,3) Inr by (simp add: closed_jaxpr_def extends_def closed_state_def known_def)
    then have cj: "closed_jaxpr ?jx" .
    have b4: "\<forall>v\<in>V. value_at (set (known i ps ?t2)) (current_interpreter ?t2) v"
      using uses_build_jaxpr.prems(4) extends_value [OF e] by auto
    have b1: "root (current_interpreter ?t2) = Some i" using uses_build_jaxpr.prems(1) by simp
    have b2: "i < next_id ?t2" using nx uses_build_jaxpr.prems(2) by simp
    obtain r2 s2 where
      k: "k' ?jx ?t2 = (r2, s2)" "extends i ps ?t2 s2"
         "\<forall>v. r2 = Inr v \<longrightarrow> value_at (set (known i ps s2)) (current_interpreter ?t2) v"
      using uses_build_jaxpr.IH(2) [OF cj b1 b2 extends_closed [OF e] b4] by blast
    have "bnd (build_jaxpr h n) k' s = (r2, s2)"
      using b k(1) by (simp add: bnd_def)
    moreover have "extends i ps s s2" using e k(2) by (rule extends_trans)
    ultimately show ?thesis using k(3) by simp
  qed
qed


lemma atom_in_ok: "atom_in (set bound) v \<Longrightarrow> atom_ok bound v"
  by (cases v) simp_all

lemma closed_scoped_eqns: "closed_eqns bound es \<Longrightarrow> scoped_eqns bound es"
  by (induction es arbitrary: bound) (auto simp: list_all_iff intro: atom_in_ok)

lemma closed_well_scoped: "closed_jaxpr j \<Longrightarrow> well_scoped j"
  unfolding closed_jaxpr_def well_scoped_def
  by (blast intro: closed_scoped_eqns atom_in_ok)

lemma build_jaxpr_closed:
  assumes "\<And>xs. uses (set xs) (f xs)" "build_jaxpr f n s = (Inr j, s')"
  shows "closed_jaxpr j"
proof -
  let ?j = "next_id s"
  let ?qs = "map vname [1 ..< Suc n]"
  let ?s2 = "s\<lparr>next_id := Suc ?j, heap := (heap s)(?j := \<lparr>equations = [], name_counter = n\<rparr>)\<rparr>"
  let ?t0 = "?s2\<lparr>current_interpreter := StagingInterpreter ?j\<rparr>"
  have a4: "\<forall>v\<in>set (map VStr ?qs). value_at (set (known ?j ?qs ?t0)) (current_interpreter ?t0) v"
    by (auto simp: known_def)
  have a1: "root (current_interpreter ?t0) = Some ?j" by simp
  have a2: "?j < next_id ?t0" by simp
  have a3: "closed_state ?j ?qs ?t0" by (simp add: closed_state_def)
  obtain r t1 where
    h: "f (map VStr ?qs) ?t0 = (r, t1)" "extends ?j ?qs ?t0 t1"
       "\<forall>v. r = Inr v \<longrightarrow> value_at (set (known ?j ?qs t1)) (current_interpreter ?t0) v"
    using uses_ok [OF assms(1) a1 a2 a3 a4] by blast
  show ?thesis
  proof (cases r)
    case (Inl err)
    with h(1) assms(2) show ?thesis
      by (simp add: build_jaxpr_unfold Let_def bnd_def set_interpreter_def)
  next
    case (Inr res)
    with h(1) assms(2)
    have "j = \<lparr>parameters = ?qs, jaxpr_equations = equations (heap t1 ?j), return_val = res\<rparr>"
      by (simp add: build_jaxpr_unfold Let_def bnd_def set_interpreter_def)
    then show ?thesis
      using h(2,3) Inr by (simp add: closed_jaxpr_def extends_def closed_state_def known_def)
  qed
qed

lemma api_call1: "(\<And>x. api (g x)) \<Longrightarrow> api (call1 g xs)"
  by (induction g xs rule: call1.induct) (auto intro: api.intros)

lemma api_foo: "api (foo x)"
  unfolding foo_def by (intro api.intros)

text \<open>
  Functions that pass on only what they hold: \<^verbatim>\<open>foo\<close>, the derivatives of such
  a function, the notebook's \<^verbatim>\<open>f\<close> with its closure \<^verbatim>\<open>g\<close>, a function that uses
  an intermediate result twice, and staging \<^verbatim>\<open>foo\<close> then evaluating its jaxpr.
\<close>

lemma uses_call1: "(\<And>x. uses (insert x V) (g x)) \<Longrightarrow> uses (set xs \<union> V) (call1 g xs)"
  by (induction g xs rule: call1.induct) (auto intro: uses.intros simp: insert_commute)

lemma uses_foo: "x \<in> V \<Longrightarrow> uses V (foo x)"
  unfolding foo_def by (intro uses.intros) (simp_all add: in_hand_def)

lemma uses_derivative:
  "(\<And>d. uses (insert d V) (g d)) \<Longrightarrow> in_hand V x \<Longrightarrow> uses V (derivative g x)"
  unfolding derivative_def
  by (rule uses_jvp) (auto intro: uses.intros simp: in_hand_def)

lemma uses_nth_order_derivative:
  "(\<And>V d. d \<in> V \<Longrightarrow> uses V (g d)) \<Longrightarrow> x \<in> V \<Longrightarrow> uses V (nth_order_derivative n g x)"
proof (induction n arbitrary: V x)
  case 0
  then show ?case by simp
next
  case (Suc n)
  show ?case
    unfolding nth_order_derivative.simps
    by (rule uses_derivative) (auto intro: Suc simp: in_hand_def)
qed

lemma uses_f_example: "x \<in> V \<Longrightarrow> uses V (f_example x)"
  unfolding f_example_def Let_def
  by (intro uses_bnd uses_derivative uses.intros) (simp_all add: in_hand_def)

lemma uses_shared: "x \<in> V \<Longrightarrow> uses V (bnd (add x (VFloat 3)) (\<lambda>t. mul t t))"
  by (intro uses.intros) (simp_all add: in_hand_def)

lemma uses_built_and_evaluated:
  "x \<in> V \<Longrightarrow> uses V (bnd (build_jaxpr (call1 foo) 1) (\<lambda>j. eval_jaxpr j [x]))"
  apply (rule uses_build_jaxpr)
  using uses_call1 [of "{}" foo] apply (simp add: uses_foo)
   apply (rule uses_eval_jaxpr; simp add: in_hand_def)
  apply (rule api_eval_jaxpr)
  done

lemma str_nat_more_digits:
  "str_nat (Suc (Suc (Suc (Suc 0)))) = ''4''"
  "str_nat (Suc (Suc (Suc (Suc (Suc 0))))) = ''5''"
  "str_nat (Suc (Suc (Suc (Suc (Suc (Suc 0)))))) = ''6''"
  "str_nat (Suc (Suc (Suc (Suc (Suc (Suc (Suc 0))))))) = ''7''"
  by (simp_all add: str_nat.simps digit_char_def)

lemma build_jaxpr_derivative_foo:
  "fst (build_jaxpr (call1 (derivative foo)) 1 initial_state) = Inr derivative_foo_jaxpr"
  by (simp add: staging_simps run_simps str_nat_digits str_nat_more_digits
        derivative_foo_jaxpr_def
        initial_state_def)

text \<open>
  C8, as stated, fails. The function \<^verbatim>\<open>lambda y: add("v_3", y)\<close> uses only the
  dispatch API, and the jaxpr \<^verbatim>\<open>build_jaxpr\<close> returns for it has pairwise
  distinct names, but its equation has the argument \<^verbatim>\<open>v_3\<close>, which is neither
  a parameter nor the result of an earlier equation.
\<close>

theorem build_jaxpr_free_variable:
  "api (call1 (add (VStr ''v_3'')) [VStr ''v_1'']) \<and>
   fst (build_jaxpr (call1 (add (VStr ''v_3''))) 1 initial_state) = Inr capture_jaxpr \<and>
   distinct_names capture_jaxpr \<and>
   \<not> well_scoped capture_jaxpr"
proof (intro conjI)
  show "api (call1 (add (VStr ''v_3'')) [VStr ''v_1''])"
    by (rule api_call1) (rule api_add)
next
  show "fst (build_jaxpr (call1 (add (VStr ''v_3''))) 1 initial_state) = Inr capture_jaxpr"
    by (simp add: staging_simps run_simps str_nat_digits capture_jaxpr_def initial_state_def)
next
  show "distinct_names capture_jaxpr"
    by (simp add: distinct_names_def capture_jaxpr_def)
next
  show "\<not> well_scoped capture_jaxpr"
    by (simp add: well_scoped_def capture_jaxpr_def)
qed

text \<open>
  C8, amended. For every function built from the dispatch API, the jaxpr
  returned by \<^verbatim>\<open>build_jaxpr\<close> has the parameters \<^verbatim>\<open>v_1\<close> to \<^verbatim>\<open>v_n\<close> and the
  equation results \<^verbatim>\<open>v_{n+1}\<close> to \<^verbatim>\<open>v_c\<close>, in order: the counter never hands
  out a name twice, so all names are pairwise distinct. For every function
  that, in addition, passes to the dispatch API and returns only float
  literals, its own parameters and the results of its earlier calls (the
  function handed to \<^verbatim>\<open>jvp\<close> may also use what the function around it
  holds, the function handed to a nested \<^verbatim>\<open>build_jaxpr\<close> its own parameters only, and \<^verbatim>\<open>eval_jaxpr\<close> is
  applied to closed jaxprs, such as the one a nested \<^verbatim>\<open>build_jaxpr\<close> returned),
  every variable used as an equation argument or as the return value of the
  jaxpr returned by \<^verbatim>\<open>build_jaxpr\<close> is a parameter or the result of an earlier
  equation.
\<close>

theorem build_jaxpr_names:
  "((\<forall>xs. api (f xs)) \<and> build_jaxpr f n s = (Inr j, s') \<longrightarrow>
      distinct_names j \<and>
      (\<exists>c\<ge>n. parameters j = map vname [1 ..< Suc n] \<and>
              map var (jaxpr_equations j) = map vname [Suc n ..< Suc c])) \<and>
   ((\<forall>xs. uses (set xs) (f xs)) \<and> build_jaxpr f n s = (Inr j, s') \<longrightarrow>
      distinct_names j \<and> well_scoped j)"
proof (intro conjI impI)
  assume a: "(\<forall>xs. api (f xs)) \<and> build_jaxpr f n s = (Inr j, s')"
  then show "distinct_names j" by (blast intro: build_jaxpr_distinct)
  from a show "\<exists>c\<ge>n. parameters j = map vname [1 ..< Suc n] \<and>
              map var (jaxpr_equations j) = map vname [Suc n ..< Suc c]"
    by (blast intro: build_jaxpr_vnames)
next
  assume u: "(\<forall>xs. uses (set xs) (f xs)) \<and> build_jaxpr f n s = (Inr j, s')"
  then have "\<And>xs. api (f xs)" by (blast intro: uses_api)
  with u show "distinct_names j" by (blast intro: build_jaxpr_distinct)
  from u have "closed_jaxpr j" by (blast intro: build_jaxpr_closed)
  then show "well_scoped j" by (rule closed_well_scoped)
qed

theorem build_jaxpr_names_witness:
  "(\<forall>xs. api (call1 (derivative foo) xs)) \<and>
   (\<forall>xs. uses (set xs) (call1 (derivative foo) xs)) \<and>
   build_jaxpr (call1 (derivative foo)) 1 initial_state
     = (Inr derivative_foo_jaxpr, snd (build_jaxpr (call1 (derivative foo)) 1 initial_state)) \<and>
   parameters derivative_foo_jaxpr = map vname [1 ..< Suc 1] \<and>
   distinct_names derivative_foo_jaxpr \<and> well_scoped derivative_foo_jaxpr"
proof -
  have u: "\<forall>xs. uses (set xs) (call1 (derivative foo) xs)"
  proof
    fix xs
    have "uses (set xs \<union> {}) (call1 (derivative foo) xs)"
      by (intro uses_call1 uses_derivative uses_foo) (simp_all add: in_hand_def)
    then show "uses (set xs) (call1 (derivative foo) xs)" by simp
  qed
  then have a: "\<forall>xs. api (call1 (derivative foo) xs)" by (blast intro: uses_api)
  have c: "build_jaxpr (call1 (derivative foo)) 1 initial_state
     = (Inr derivative_foo_jaxpr, snd (build_jaxpr (call1 (derivative foo)) 1 initial_state))"
    using build_jaxpr_derivative_foo by (simp add: prod_eq_iff)
  note t = build_jaxpr_names [of "call1 (derivative foo)" 1 initial_state derivative_foo_jaxpr
      "snd (build_jaxpr (call1 (derivative foo)) 1 initial_state)"]
  from t a c have n: "parameters derivative_foo_jaxpr = map vname [1 ..< Suc 1]" by blast
  from t u c have "distinct_names derivative_foo_jaxpr \<and> well_scoped derivative_foo_jaxpr"
    by blast
  with a u c n show ?thesis by blast
qed

section \<open>Flattening and unflattening\<close>

lemma length_leaves: "length (leaves t) = num_leaves (describe t)"
  by (induction t) (auto simp: length_concat comp_def intro!: arg_cong [where f = sum_list])

lemma rebuild_list_leaves:
  assumes "\<And>t rest. t \<in> set ts \<Longrightarrow> rebuild reg (describe t) (leaves t @ rest) = Inr (t, rest)"
  shows "rebuild_list reg (map describe ts) (concat (map leaves ts) @ rest) = Inr (ts, rest)"
  using assms by (induction ts arbitrary: rest) simp_all

lemma rebuild_leaves:
  "registered reg t \<Longrightarrow> rebuild reg (describe t) (leaves t @ rest) = Inr (t, rest)"
proof (induction t arbitrary: rest)
  case (Leaf x)
  show ?case by simp
next
  case NoneNode
  show ?case by simp
next
  case (Sequence ts)
  have "rebuild_list reg (map describe ts) (concat (map leaves ts) @ rest) = Inr (ts, rest)"
    using Sequence by (intro rebuild_list_leaves) (auto simp: list_all_iff)
  then show ?case by simp
next
  case (Mapping kts)
  have "rebuild_list reg (map describe (map snd kts)) (concat (map leaves (map snd kts)) @ rest)
          = Inr (map snd kts, rest)"
    using Mapping by (intro rebuild_list_leaves) (auto simp: list_all_iff)
  then show ?case by (simp add: comp_def zip_map_fst_snd)
next
  case (Custom tag aux ts)
  have "rebuild_list reg (map describe ts) (concat (map leaves ts) @ rest) = Inr (ts, rest)"
    using Custom by (intro rebuild_list_leaves) (auto simp: list_all_iff)
  with Custom.prems show ?case by simp
qed

lemma unflatten_flatten:
  "registered reg t \<Longrightarrow> unflatten reg (snd (flatten t)) (fst (flatten t)) = Inr t"
  using rebuild_leaves [of reg t "[]"] by (simp add: unflatten_def flatten_def length_leaves)

lemma describe_map: "describe (map_pytree g t) = describe t"
  by (induction t) (auto simp: comp_def)

lemma same_shape_same_descriptor:
  assumes "map_pytree (\<lambda>_. ()) s = map_pytree (\<lambda>_. ()) t"
  shows "snd (flatten s) = snd (flatten t)"
proof -
  have "describe s = describe (map_pytree (\<lambda>_. ()) s)" by (simp add: describe_map)
  also have "\<dots> = describe (map_pytree (\<lambda>_. ()) t)" by (simp add: assms)
  also have "\<dots> = describe t" by (simp add: describe_map)
  finally show ?thesis by (simp add: flatten_def)
qed

text \<open>
  C9. For every nested structure whose custom containers are all registered,
  \<^verbatim>\<open>unflatten\<close> applied to the descriptor and the leaves that \<^verbatim>\<open>flatten\<close>
  produces returns the structure itself; and two structures of the same
  container shape (equal once their leaf values are erased) have equal
  descriptors.
\<close>

theorem flatten_round_trip:
  "(registered reg t \<longrightarrow> unflatten reg (snd (flatten t)) (fst (flatten t)) = Inr t) \<and>
   (shape t = shape u \<longrightarrow> snd (flatten t) = snd (flatten u))"
  using unflatten_flatten [of reg t] same_shape_same_descriptor [of t u]
  by (simp add: shape_def)

theorem flatten_round_trip_witness:
  "registered (\<lambda>tag. tag = ''Point'')
     (Mapping [(''a'', Sequence [Leaf (1::int), NoneNode]),
               (''b'', Custom ''Point'' ''xy'' [Leaf 2, Leaf 3])]) \<and>
   unflatten (\<lambda>tag. tag = ''Point'')
     (DMapping [''a'', ''b'']
        [DSequence [DLeaf, DNone], DCustom ''Point'' ''xy'' [DLeaf, DLeaf]])
     [1, 2, 3]
   = Inr (Mapping [(''a'', Sequence [Leaf (1::int), NoneNode]),
                   (''b'', Custom ''Point'' ''xy'' [Leaf 2, Leaf 3])]) \<and>
   shape (Sequence [Leaf (1::int), Mapping [(''k'', Leaf 2)]])
     = shape (Sequence [Leaf (7::int), Mapping [(''k'', Leaf 9)]]) \<and>
   snd (flatten (Sequence [Leaf (1::int), Mapping [(''k'', Leaf 2)]]))
     = snd (flatten (Sequence [Leaf (7::int), Mapping [(''k'', Leaf 9)]]))"
proof -
  let ?t = "Mapping [(''a'', Sequence [Leaf (1::int), NoneNode]),
               (''b'', Custom ''Point'' ''xy'' [Leaf 2, Leaf 3])]"
  have r: "registered (\<lambda>tag. tag = ''Point'') ?t" by simp
  have f: "flatten ?t = ([1, 2, 3], DMapping [''a'', ''b'']
        [DSequence [DLeaf, DNone], DCustom ''Point'' ''xy'' [DLeaf, DLeaf]])"
    by (simp add: flatten_def)
  have s: "shape (Sequence [Leaf (1::int), Mapping [(''k'', Leaf 2)]])
     = shape (Sequence [Leaf (7::int), Mapping [(''k'', Leaf 9)]])"
    by (simp add: shape_def)
  show ?thesis
    using r s
      flatten_round_trip [of "\<lambda>tag. tag = ''Point''" ?t ?t]
      flatten_round_trip [of "\<lambda>tag. tag = ''Point''"
        "Sequence [Leaf (1::int), Mapping [(''k'', Leaf 2)]]"
        "Sequence [Leaf (7::int), Mapping [(''k'', Leaf 9)]]"]
    unfolding f by simp
qed

end
